theory Spec2Isabelle
  imports Complex_Main "HOL-Library.Log_Nat"
begin

section \<open>JavaScript objects as ordered property lists\<close>

text \<open>
  A plain JavaScript object is modelled by the list of its own properties in insertion
  order. Reading a property that is not there gives \<open>None\<close> (JavaScript's
  \<open>undefined\<close>, unless the prototype answers, which is modelled where it matters).
  Enumeration (\<open>Object.assign\<close>, \<open>Object.values\<close>) visits the array-index keys first,
  in ascending numeric order, and then the other keys in insertion order.
\<close>

type_synonym 'v jsobj = "(string \<times> 'v) list"

definition is_digit :: "char \<Rightarrow> bool" where
  "is_digit c = (48 \<le> (of_char c :: nat) \<and> (of_char c :: nat) \<le> 57)"

definition digits_val :: "string \<Rightarrow> int" where
  "digits_val s = foldl (\<lambda>n c. 10 * n + ((of_char c :: int) - 48)) 0 s"

text \<open>A canonical numeric string below \<open>2^32 - 1\<close> is an array index.\<close>

definition array_index :: "string \<Rightarrow> int option" where
  "array_index s =
     (if s \<noteq> [] \<and> list_all is_digit s \<and> (hd s \<noteq> CHR ''0'' \<or> length s = 1)
         \<and> digits_val s < 4294967295
      then Some (digits_val s) else None)"

definition js_get :: "'v jsobj \<Rightarrow> string \<Rightarrow> 'v option" where
  "js_get obj k = map_of obj k"

text \<open>\<open>obj[k] = v\<close>: overwrite in place, or append a new own property.\<close>

definition js_set :: "'v jsobj \<Rightarrow> string \<Rightarrow> 'v \<Rightarrow> 'v jsobj" where
  "js_set obj k v =
     (if k \<in> fst ` set obj
      then map (\<lambda>(k', v'). if k' = k then (k', v) else (k', v')) obj
      else obj @ [(k, v)])"

definition js_delete :: "'v jsobj \<Rightarrow> string \<Rightarrow> 'v jsobj" where
  "js_delete obj k = filter (\<lambda>(k', v'). k' \<noteq> k) obj"

definition own_entries :: "'v jsobj \<Rightarrow> 'v jsobj" where
  "own_entries obj =
     sort_key (\<lambda>(k, v). the (array_index k)) (filter (\<lambda>(k, v). array_index k \<noteq> None) obj)
     @ filter (\<lambda>(k, v). array_index k = None) obj"

definition object_assign :: "'v jsobj \<Rightarrow> 'v jsobj \<Rightarrow> 'v jsobj" where
  "object_assign target src = foldl (\<lambda>t (k, v). js_set t k v) target (own_entries src)"

definition object_values :: "'v jsobj \<Rightarrow> 'v list" where
  "object_values obj = map snd (own_entries obj)"

section \<open>The User model: \<open>toJSON\<close>\<close>

text \<open>
  \<open>User.prototype.toJSON\<close> copies the instance's values into a fresh object and deletes
  three properties from the copy. The argument is what \<open>this.get()\<close> returns.
\<close>

definition toJSON :: "'v jsobj \<Rightarrow> 'v jsobj" where
  "toJSON this_get =
     (let values = object_assign [] this_get;
          values = js_delete values ''password'';
          values = js_delete values ''passwordResetToken'';
          values = js_delete values ''passwordResetExpires''
      in values)"

definition secret_fields :: "string set" where
  "secret_fields = {''password'', ''passwordResetToken'', ''passwordResetExpires''}"

text \<open>Two value objects differ only in the secret fields: same keys in the same order,
  same value under every key that is not secret.\<close>

definition same_unless_secret :: "string \<times> 'v \<Rightarrow> string \<times> 'v \<Rightarrow> bool" where
  "same_unless_secret p q = (fst p = fst q \<and> (fst p \<notin> secret_fields \<longrightarrow> snd p = snd q))"

definition differ_only_in_secrets :: "'v jsobj \<Rightarrow> 'v jsobj \<Rightarrow> bool" where
  "differ_only_in_secrets u1 u2 = list_all2 same_unless_secret u1 u2"

definition alice :: "string jsobj" where
  "alice = [(''id'', ''1''), (''email'', ''a@sacco.com''), (''password'', ''hash-one''),
     (''passwordResetToken'', ''tok''), (''passwordResetExpires'', ''2026-01-01''),
     (''role'', ''user'')]"

definition alice_reset :: "string jsobj" where
  "alice_reset = [(''id'', ''1''), (''email'', ''a@sacco.com''), (''password'', ''hash-two''),
     (''passwordResetToken'', []), (''passwordResetExpires'', []), (''role'', ''user'')]"

section \<open>The Report model\<close>

text \<open>
  A calendar date in local time, as \<open>getFullYear\<close>, \<open>getMonth\<close> (0 to 11) and
  \<open>getDate\<close> read it.
\<close>

record jsdate =
  year :: int
  month :: nat
  day :: nat

definition leap_year :: "int \<Rightarrow> bool" where
  "leap_year y = (y mod 4 = 0 \<and> (y mod 100 \<noteq> 0 \<or> y mod 400 = 0))"

definition days_in_month :: "int \<Rightarrow> nat \<Rightarrow> nat" where
  "days_in_month y m =
     (if m = 1 then (if leap_year y then 29 else 28)
      else if m \<in> {3, 5, 8, 10} then 30 else 31)"

text \<open>A day number beyond the end of the month rolls over into the following months.\<close>

function carry_days :: "int \<Rightarrow> nat \<Rightarrow> nat \<Rightarrow> jsdate" where
  "carry_days y m d =
     (if days_in_month y m < d
      then (if m = 11 then carry_days (y + 1) 0 (d - days_in_month y m)
            else carry_days y (m + 1) (d - days_in_month y m))
      else \<lparr>year = y, month = m, day = d\<rparr>)"
  by pat_completeness auto
termination
  by (relation "measure (\<lambda>(y, m, d). d)") (auto simp: days_in_month_def)

declare carry_days.simps [simp del]

text \<open>
  \<open>new Date(y, m, d)\<close> for a month index \<open>m \<ge> 0\<close> and a day \<open>d \<ge> 1\<close>: a year from 0 to 99
  means 1900 + y, a month index of 12 or more carries into the year, and the day carries
  into the months.
\<close>

definition new_Date :: "int \<Rightarrow> nat \<Rightarrow> nat \<Rightarrow> jsdate" where
  "new_Date y m d =
     (let y' = (if 0 \<le> y \<and> y \<le> 99 then 1900 + y else y)
      in carry_days (y' + int (m div 12)) (m mod 12) d)"

text \<open>
  The fields of a report that the hook, the generator and the download route read or
  write. \<open>status\<close> and \<open>rtype\<close> are the strings the code compares and stores;
  \<open>None\<close> is an unset (null) column.
\<close>

record report =
  rid :: nat
  title :: string
  rtype :: string
  status :: string
  dueDate :: "jsdate option"
  startedAt :: "nat option"
  completedAt :: "nat option"
  outputFile :: "string option"
  errorMessage :: "string option"
  metadata :: "string option"

text \<open>The values of the \<open>status\<close> column's ENUM in the model declaration.\<close>

definition status_enum :: "string set" where
  "status_enum = {''pending'', ''generating'', ''completed'', ''failed''}"

text \<open>The \<open>beforeCreate\<close> hook; \<open>now\<close> is what \<open>new Date()\<close> returns inside it.\<close>

definition beforeCreate :: "jsdate \<Rightarrow> report \<Rightarrow> report" where
  "beforeCreate now r =
     (if dueDate r = None then
        (if rtype r = ''monthly'' then
           r\<lparr>dueDate := Some (new_Date (year now) (month now + 1) 15)\<rparr>
         else if rtype r = ''quarterly'' then
           (let quarter = month now div 3
            in r\<lparr>dueDate := Some (new_Date (year now) ((quarter + 1) * 3) 30)\<rparr>)
         else if rtype r = ''annual'' then
           r\<lparr>dueDate := Some (new_Date (year now + 1) 2 31)\<rparr>
         else r)
      else r)"

definition blank_report :: report where
  "blank_report = \<lparr>rid = 1, title = ''Returns'', rtype = ''monthly'', status = ''pending'',
     dueDate = None, startedAt = None, completedAt = None,
     outputFile = None, errorMessage = None, metadata = None\<rparr>"

section \<open>The download route\<close>

text \<open>
  The handler of \<open>GET /:id/download\<close> as the list of calls it makes on the response, in
  order. Its inputs are the outcome of \<open>Report.findByPk\<close> (\<open>Inl\<close> a rejection's message,
  \<open>Inr None\<close> no such row), the path \<open>path.join\<close> builds, \<open>fs.existsSync\<close>, and the
  outcome of \<open>logActivity\<close> (\<open>Some\<close> the message of a rejection).
\<close>

datatype res_call =
    Status nat
  | Json bool string "string option"
  | SetHeader string string
  | Pipe string

definition falsy_string :: "string option \<Rightarrow> bool" where
  "falsy_string s = (s = None \<or> s = Some [])"

definition download ::
  "(string + report option) \<Rightarrow> (string \<Rightarrow> string) \<Rightarrow> (string \<Rightarrow> bool) \<Rightarrow> string option
     \<Rightarrow> res_call list" where
  "download found path_join existsSync logActivity =
     (case found of
        Inl err \<Rightarrow> [Status 500, Json False ''Error downloading report'' (Some err)]
      | Inr None \<Rightarrow> [Status 404, Json False ''Report not found'' None]
      | Inr (Some r) \<Rightarrow>
          if status r \<noteq> ''completed'' \<or> falsy_string (outputFile r) then
            [Status 400, Json False ''Report not ready for download'' None]
          else
            [SetHeader ''Content-Disposition''
               (''attachment; filename='' @ [CHR 0x22] @ title r @ ''.pdf'' @ [CHR 0x22]),
             SetHeader ''Content-Type'' ''application/pdf'']
            @ (let filePath = path_join (the (outputFile r)) in
               if existsSync filePath then
                 Pipe filePath #
                 (case logActivity of
                    None \<Rightarrow> []
                  | Some err \<Rightarrow> [Status 500, Json False ''Error downloading report'' (Some err)])
               else [Status 404, Json False ''Report file not found'' None]))"

definition streams_file :: "res_call list \<Rightarrow> bool" where
  "streams_file calls = list_ex (\<lambda>c. case c of Pipe f \<Rightarrow> True | _ \<Rightarrow> False) calls"

definition error_response :: "res_call list \<Rightarrow> bool" where
  "error_response calls =
     (case calls of
        [Status code, Json success msg err] \<Rightarrow> 400 \<le> code \<and> \<not> success
      | _ \<Rightarrow> False)"

section \<open>JavaScript numbers and values\<close>

text \<open>
  A Number is an IEEE 754 binary64 value: the finite ones are rationals, every arithmetic
  result is rounded to the nearest representable value (ties to even), and there are NaN
  and the two infinities. The two zeros are identified: no operation modelled here tells
  them apart (no division by a value that can be a negative zero).
\<close>

datatype jsnum = NaN | PosInf | NegInf | Fin rat

text \<open>\<open>ilog2 x\<close> is the exponent \<open>e\<close> with \<open>2^e \<le> x < 2^(e+1)\<close>, for \<open>x > 0\<close>.\<close>

definition ilog2 :: "rat \<Rightarrow> int" where
  "ilog2 x =
     (let (p, q) = quotient_of x; k = bitlen p - bitlen q
      in if 2 powi k \<le> x then k else k - 1)"

definition round_half_even :: "rat \<Rightarrow> int" where
  "round_half_even x =
     (let f = \<lfloor>x\<rfloor>; d = x - of_int f
      in if d < 1 / 2 then f else if 1 / 2 < d then f + 1 else if even f then f else f + 1)"

text \<open>
  Rounding a positive rational to binary64: 53 significant bits, so the representable
  values around \<open>x\<close> are the multiples of \<open>2^(e-52)\<close>; the exponent \<open>e\<close> is at least
  -1022 (below it the spacing stays \<open>2^-1074\<close>).
\<close>

definition ulp64 :: "rat \<Rightarrow> rat" where
  "ulp64 x = 2 powi (max (ilog2 x) (- 1022) - 52)"

definition nearest64 :: "rat \<Rightarrow> rat" where
  "nearest64 x = of_int (round_half_even (x / ulp64 x)) * ulp64 x"

text \<open>The result of an operation whose exact value is \<open>x\<close>; overflow gives an infinity.\<close>

definition fl64 :: "rat \<Rightarrow> jsnum" where
  "fl64 x =
     (if x = 0 then Fin 0
      else
        let y = nearest64 \<bar>x\<bar>
        in if 2 powi 1024 \<le> y then (if 0 < x then PosInf else NegInf)
           else Fin (sgn x * y))"

fun js_neg :: "jsnum \<Rightarrow> jsnum" where
  "js_neg NaN = NaN"
| "js_neg PosInf = NegInf"
| "js_neg NegInf = PosInf"
| "js_neg (Fin a) = Fin (- a)"

fun js_add_num :: "jsnum \<Rightarrow> jsnum \<Rightarrow> jsnum" where
  "js_add_num (Fin a) (Fin b) = fl64 (a + b)"
| "js_add_num NaN _ = NaN"
| "js_add_num _ NaN = NaN"
| "js_add_num PosInf NegInf = NaN"
| "js_add_num NegInf PosInf = NaN"
| "js_add_num PosInf _ = PosInf"
| "js_add_num NegInf _ = NegInf"
| "js_add_num _ PosInf = PosInf"
| "js_add_num _ NegInf = NegInf"

definition js_sub_num :: "jsnum \<Rightarrow> jsnum \<Rightarrow> jsnum" where
  "js_sub_num a b = js_add_num a (js_neg b)"

definition inf_of_sign :: "bool \<Rightarrow> jsnum" where
  "inf_of_sign positive = (if positive then PosInf else NegInf)"

fun js_mul_num :: "jsnum \<Rightarrow> jsnum \<Rightarrow> jsnum" where
  "js_mul_num (Fin a) (Fin b) = fl64 (a * b)"
| "js_mul_num NaN _ = NaN"
| "js_mul_num _ NaN = NaN"
| "js_mul_num PosInf (Fin b) = (if b = 0 then NaN else inf_of_sign (0 < b))"
| "js_mul_num NegInf (Fin b) = (if b = 0 then NaN else inf_of_sign (b < 0))"
| "js_mul_num (Fin a) PosInf = (if a = 0 then NaN else inf_of_sign (0 < a))"
| "js_mul_num (Fin a) NegInf = (if a = 0 then NaN else inf_of_sign (a < 0))"
| "js_mul_num PosInf PosInf = PosInf"
| "js_mul_num NegInf NegInf = PosInf"
| "js_mul_num PosInf NegInf = NegInf"
| "js_mul_num NegInf PosInf = NegInf"

text \<open>Division; a zero divisor is the positive zero.\<close>

fun js_div_num :: "jsnum \<Rightarrow> jsnum \<Rightarrow> jsnum" where
  "js_div_num (Fin a) (Fin b) =
     (if b = 0 then (if a = 0 then NaN else inf_of_sign (0 < a)) else fl64 (a / b))"
| "js_div_num NaN _ = NaN"
| "js_div_num _ NaN = NaN"
| "js_div_num PosInf (Fin b) = inf_of_sign (0 \<le> b)"
| "js_div_num NegInf (Fin b) = inf_of_sign (b < 0)"
| "js_div_num (Fin a) PosInf = Fin 0"
| "js_div_num (Fin a) NegInf = Fin 0"
| "js_div_num _ _ = NaN"

text \<open>\<open>Math.round\<close>: the integer nearest to the argument, a tie going up.\<close>

fun Math_round :: "jsnum \<Rightarrow> jsnum" where
  "Math_round (Fin x) = Fin (of_int \<lfloor>x + 1 / 2\<rfloor>)"
| "Math_round n = n"

fun js_less_num :: "jsnum \<Rightarrow> jsnum \<Rightarrow> bool" where
  "js_less_num (Fin a) (Fin b) = (a < b)"
| "js_less_num NaN _ = False"
| "js_less_num _ NaN = False"
| "js_less_num NegInf NegInf = False"
| "js_less_num NegInf _ = True"
| "js_less_num _ NegInf = False"
| "js_less_num PosInf _ = False"
| "js_less_num _ PosInf = True"

text \<open>
  The values a flat record holds, and a criterion's value after \<open>JSON.parse\<close>: primitives.
\<close>

datatype jsval = JUndefined | JNull | JBool bool | JNum jsnum | JStr string

type_synonym item = "jsval jsobj"

text \<open>
  \<open>Number::toString\<close> and \<open>StringToNumber\<close> belong to the engine: the model takes them
  as parameters.
\<close>

record js_runtime =
  number_to_string :: "jsnum \<Rightarrow> string"
  string_to_number :: "string \<Rightarrow> jsnum"

fun to_string :: "js_runtime \<Rightarrow> jsval \<Rightarrow> string" where
  "to_string rt JUndefined = ''undefined''"
| "to_string rt JNull = ''null''"
| "to_string rt (JBool b) = (if b then ''true'' else ''false'')"
| "to_string rt (JNum n) = number_to_string rt n"
| "to_string rt (JStr s) = s"

fun to_number :: "js_runtime \<Rightarrow> jsval \<Rightarrow> jsnum" where
  "to_number rt JUndefined = NaN"
| "to_number rt JNull = Fin 0"
| "to_number rt (JBool b) = (if b then Fin 1 else Fin 0)"
| "to_number rt (JNum n) = n"
| "to_number rt (JStr s) = string_to_number rt s"

text \<open>\<open>a + b\<close>: concatenation as soon as one side is a string.\<close>

definition js_plus :: "js_runtime \<Rightarrow> jsval \<Rightarrow> jsval \<Rightarrow> jsval" where
  "js_plus rt a b =
     (case (a, b) of
        (JStr s, _) \<Rightarrow> JStr (s @ to_string rt b)
      | (_, JStr s) \<Rightarrow> JStr (to_string rt a @ s)
      | _ \<Rightarrow> JNum (js_add_num (to_number rt a) (to_number rt b)))"

text \<open>\<open>a === b\<close> on primitives.\<close>

fun strict_equals :: "jsval \<Rightarrow> jsval \<Rightarrow> bool" where
  "strict_equals (JNum a) (JNum b) = (a \<noteq> NaN \<and> a = b)"
| "strict_equals a b = (a = b)"

text \<open>Strings compare by code unit; the strings of the model are ASCII.\<close>

fun string_less :: "string \<Rightarrow> string \<Rightarrow> bool" where
  "string_less [] [] = False"
| "string_less [] (y # ys) = True"
| "string_less (x # xs) [] = False"
| "string_less (x # xs) (y # ys) =
     ((of_char x :: nat) < of_char y \<or> (x = y \<and> string_less xs ys))"

text \<open>\<open>a < b\<close>; \<open>a > b\<close> is \<open>js_less rt b a\<close>.\<close>

definition js_less :: "js_runtime \<Rightarrow> jsval \<Rightarrow> jsval \<Rightarrow> bool" where
  "js_less rt a b =
     (case (a, b) of
        (JStr s, JStr t) \<Rightarrow> string_less s t
      | _ \<Rightarrow> js_less_num (to_number rt a) (to_number rt b))"

fun starts_with :: "string \<Rightarrow> string \<Rightarrow> bool" where
  "starts_with s [] = True"
| "starts_with [] (c # cs) = False"
| "starts_with (x # xs) (c # cs) = (x = c \<and> starts_with xs cs)"

text \<open>\<open>s.includes(t)\<close>.\<close>

fun string_includes :: "string \<Rightarrow> string \<Rightarrow> bool" where
  "string_includes [] t = (t = [])"
| "string_includes (x # xs) t = (starts_with (x # xs) t \<or> string_includes xs t)"

text \<open>
  \<open>item[field]\<close>, for a field name that \<open>Object.prototype\<close> does not answer: the own
  property, or \<open>undefined\<close>.
\<close>

definition item_get :: "item \<Rightarrow> string \<Rightarrow> jsval" where
  "item_get it field = (case js_get it field of Some v \<Rightarrow> v | None \<Rightarrow> JUndefined)"

section \<open>The transformation pipeline\<close>

datatype js_error = TypeError | Error string

record criterion =
  cfield :: string
  operator :: string
  cvalue :: jsval

text \<open>
  One criterion of \<open>evaluateFilter\<close>. \<open>itemValue.toString()\<close> raises a TypeError on
  \<open>undefined\<close> and \<open>null\<close>.
\<close>

definition evaluateCriterion :: "js_runtime \<Rightarrow> item \<Rightarrow> criterion \<Rightarrow> js_error + bool" where
  "evaluateCriterion rt it c =
     (let itemValue = item_get it (cfield c) in
      if operator c = ''equals'' then Inr (strict_equals itemValue (cvalue c))
      else if operator c = ''greater'' then Inr (js_less rt (cvalue c) itemValue)
      else if operator c = ''less'' then Inr (js_less rt itemValue (cvalue c))
      else if operator c = ''contains'' then
        (if itemValue = JUndefined \<or> itemValue = JNull then Inl TypeError
         else Inr (string_includes (to_string rt itemValue) (to_string rt (cvalue c))))
      else Inr True)"

text \<open>\<open>criteria.every(...)\<close> stops at the first criterion that is false or raises.\<close>

fun evaluateFilter :: "js_runtime \<Rightarrow> item \<Rightarrow> criterion list \<Rightarrow> js_error + bool" where
  "evaluateFilter rt it [] = Inr True"
| "evaluateFilter rt it (c # cs) =
     (case evaluateCriterion rt it c of
        Inl e \<Rightarrow> Inl e
      | Inr False \<Rightarrow> Inr False
      | Inr True \<Rightarrow> evaluateFilter rt it cs)"

text \<open>\<open>data.filter(item => evaluateFilter(item, criteria))\<close>.\<close>

fun filter_items :: "js_runtime \<Rightarrow> criterion list \<Rightarrow> item list \<Rightarrow> js_error + item list" where
  "filter_items rt criteria [] = Inr []"
| "filter_items rt criteria (it # its) =
     (case evaluateFilter rt it criteria of
        Inl e \<Rightarrow> Inl e
      | Inr keep \<Rightarrow>
          (case filter_items rt criteria its of
             Inl e \<Rightarrow> Inl e
           | Inr rest \<Rightarrow> Inr (if keep then it # rest else rest)))"

record aggregate_field =
  fname :: string
  operation :: string
  sourceField :: string

text \<open>
  \<open>grouped\<close> is created as \<open>{}\<close>, so a read of \<open>grouped[key]\<close> that finds no own property
  goes on to \<open>Object.prototype\<close>, whose members are these.
\<close>

definition object_prototype_keys :: "string list" where
  "object_prototype_keys =
     [''constructor'', ''__proto__'', ''hasOwnProperty'', ''isPrototypeOf'',
      ''propertyIsEnumerable'', ''toLocaleString'', ''toString'', ''valueOf'',
      ''__defineGetter__'', ''__defineSetter__'', ''__lookupGetter__'', ''__lookupSetter__'']"

datatype 'v lookup = Own 'v | Inherited | Missing

definition plain_object_get :: "'v jsobj \<Rightarrow> string \<Rightarrow> 'v lookup" where
  "plain_object_get obj k =
     (case js_get obj k of
        Some v \<Rightarrow> Own v
      | None \<Rightarrow> if k \<in> set object_prototype_keys then Inherited else Missing)"

text \<open>The \<open>switch\<close> on \<open>field.operation\<close>, applied to the group's object.\<close>

definition apply_operation :: "js_runtime \<Rightarrow> item \<Rightarrow> item \<Rightarrow> aggregate_field \<Rightarrow> item" where
  "apply_operation rt it g field =
     (if operation field = ''sum'' then
        js_set g (fname field)
          (js_plus rt (item_get g (fname field)) (item_get it (sourceField field)))
      else if operation field = ''count'' then
        js_set g (fname field)
          (JNum (js_add_num (to_number rt (item_get g (fname field))) (Fin 1)))
      else if operation field = ''avg'' then
        js_set g (fname field)
          (JNum (js_div_num
             (to_number rt
                (js_plus rt (item_get g (fname field)) (item_get it (sourceField field))))
             (Fin 2)))
      else g)"

text \<open>
  The body of \<open>data.forEach\<close> in \<open>aggregateData\<close>. An inherited member is an object or a
  function, hence truthy: the group is not created, and the updates go to the inherited
  member, not to \<open>grouped\<close>. The model follows \<open>grouped\<close> and the records: \<open>groupBy\<close>,
  the field names and the source fields are names that \<open>Object.prototype\<close> does not answer,
  and what the updates do to an inherited member (a write to one of its read-only
  properties, such as a function's \<open>name\<close>, raises a TypeError) is left out.
\<close>

definition aggregate_item ::
  "js_runtime \<Rightarrow> string \<Rightarrow> aggregate_field list \<Rightarrow> item jsobj \<Rightarrow> item \<Rightarrow> item jsobj" where
  "aggregate_item rt groupBy aggregateFields grouped it =
     (let key = item_get it groupBy; k = to_string rt key in
      case plain_object_get grouped k of
        Inherited \<Rightarrow> grouped
      | Own g \<Rightarrow> js_set grouped k (foldl (apply_operation rt it) g aggregateFields)
      | Missing \<Rightarrow>
          (let g = foldl (\<lambda>g field. js_set g (fname field) (JNum (Fin 0)))
                     [(groupBy, key)] aggregateFields
           in js_set grouped k (foldl (apply_operation rt it) g aggregateFields)))"

definition aggregateData ::
  "js_runtime \<Rightarrow> item list \<Rightarrow> string \<Rightarrow> aggregate_field list \<Rightarrow> item list" where
  "aggregateData rt data groupBy aggregateFields =
     object_values (foldl (aggregate_item rt groupBy aggregateFields) [] data)"

datatype transformation =
    Filter "criterion list"
  | Sort string string
  | Aggregate string "aggregate_field list"
  | OtherType string

text \<open>
  \<open>Array.prototype.sort\<close> is stable, and a comparator result of NaN counts as 0. The
  comparator is the subtraction of the two field values.
\<close>

definition sort_after :: "js_runtime \<Rightarrow> string \<Rightarrow> string \<Rightarrow> item \<Rightarrow> item \<Rightarrow> bool" where
  "sort_after rt field order' a b =
     (let aValue = to_number rt (item_get a field); bValue = to_number rt (item_get b field);
          r = (if order' = ''desc'' then js_sub_num bValue aValue else js_sub_num aValue bValue)
      in js_less_num (Fin 0) r)"

fun insert_sorted :: "('a \<Rightarrow> 'a \<Rightarrow> bool) \<Rightarrow> 'a \<Rightarrow> 'a list \<Rightarrow> 'a list" where
  "insert_sorted after x [] = [x]"
| "insert_sorted after x (y # ys) =
     (if after y x then x # y # ys else y # insert_sorted after x ys)"

definition array_sort :: "('a \<Rightarrow> 'a \<Rightarrow> bool) \<Rightarrow> 'a list \<Rightarrow> 'a list" where
  "array_sort after xs = foldl (\<lambda>acc x. insert_sorted after x acc) [] xs"

definition apply_transformation ::
  "js_runtime \<Rightarrow> item list \<Rightarrow> transformation \<Rightarrow> js_error + item list" where
  "apply_transformation rt processedData t =
     (case t of
        Filter criteria \<Rightarrow> filter_items rt criteria processedData
      | Sort field order' \<Rightarrow> Inr (array_sort (sort_after rt field order') processedData)
      | Aggregate groupBy aggregateFields \<Rightarrow>
          Inr (aggregateData rt processedData groupBy aggregateFields)
      | OtherType _ \<Rightarrow> Inr processedData)"

fun applyTemplateTransformations ::
  "js_runtime \<Rightarrow> item list \<Rightarrow> transformation list \<Rightarrow> js_error + item list" where
  "applyTemplateTransformations rt data [] = Inr data"
| "applyTemplateTransformations rt data (t # ts) =
     (case apply_transformation rt data t of
        Inl e \<Rightarrow> Inl e
      | Inr processedData \<Rightarrow> applyTemplateTransformations rt processedData ts)"

text \<open>
  A runtime for evaluating examples: decimal numerals of integers. It is the engine's
  conversion on the integers below \<open>10^21\<close> and on plain digit strings, which is all the
  examples use.
\<close>

fun digits_of :: "nat \<Rightarrow> int \<Rightarrow> string" where
  "digits_of 0 n = []"
| "digits_of (Suc fuel) n =
     (if n < 10 then [char_of (48 + n)]
      else digits_of fuel (n div 10) @ [char_of (48 + n mod 10)])"

definition decimal_runtime :: js_runtime where
  "decimal_runtime = \<lparr>
     number_to_string = (\<lambda>n. case n of
         NaN \<Rightarrow> ''NaN'' | PosInf \<Rightarrow> ''Infinity'' | NegInf \<Rightarrow> ''-Infinity''
       | Fin x \<Rightarrow> (if x < 0 then ''-'' else []) @ digits_of 22 \<bar>\<lfloor>x\<rfloor>\<bar>),
     string_to_number = (\<lambda>s. if s \<noteq> [] \<and> list_all is_digit s
                              then fl64 (of_int (digits_val s)) else NaN)\<rparr>"

section \<open>Compliance scoring\<close>

record compliance_check =
  regulation :: string
  check_status :: string
  details :: string
  severity :: string

record compliance_results =
  overallScore :: jsnum
  violations :: "compliance_check list"
  compliantChecks :: "compliance_check list"
  totalChecks :: nat

text \<open>A length is an integer below \<open>2^32\<close>, exactly representable.\<close>

definition length_num :: "'a list \<Rightarrow> jsnum" where
  "length_num xs = Fin (of_nat (length xs))"

definition processComplianceChecks :: "compliance_check list \<Rightarrow> compliance_results" where
  "processComplianceChecks checks =
     (let violations = filter (\<lambda>c. check_status c = ''violation'') checks;
          compliantChecks = filter (\<lambda>c. check_status c = ''compliant'') checks;
          overallScore = Math_round
            (js_mul_num (js_div_num (length_num compliantChecks) (length_num checks)) (Fin 100))
      in \<lparr>overallScore = overallScore, violations = violations,
           compliantChecks = compliantChecks, totalChecks = length checks\<rparr>)"

definition mk_check :: "string \<Rightarrow> compliance_check" where
  "mk_check s = \<lparr>regulation = ''R'', check_status = s, details = ''Compliance check for R'',
     severity = ''low''\<rparr>"

text \<open>\<open>c\<close> compliant checks followed by \<open>v\<close> violations.\<close>

definition checks_of :: "nat \<Rightarrow> nat \<Rightarrow> compliance_check list" where
  "checks_of c v = replicate c (mk_check ''compliant'') @ replicate v (mk_check ''violation'')"

section \<open>The report orchestrator\<close>

text \<open>
  \<open>generateReport\<close> acts on the reports table, through the Report model, and on the
  socket. The model keeps the table as a map from ids to rows, and a trace of what was
  done, in order: a row update that the table accepted (with the status it writes), an
  emitted \<open>reportStatusUpdate\<close> event, the call of a strategy. \<open>new Date()\<close> is a parameter
  at each place. A thrown error is its message.
\<close>

record status_event =
  ev_reportId :: nat
  ev_status :: string
  ev_message :: string
  ev_downloadUrl :: "string option"

record gen_result =
  filePath :: string
  result_metadata :: string

datatype effect = Update nat string | Emit status_event | Run string

record world =
  db :: "nat \<Rightarrow> report option"
  trace :: "effect list"

text \<open>
  What the declaration of the Report model fixes: the attributes (the declared columns,
  and the timestamps of \<open>timestamps: true\<close> and \<open>paranoid: true\<close>) and the aliases of its
  three associations.
\<close>

definition report_attributes :: "string list" where
  "report_attributes =
     [''id'', ''title'', ''type'', ''status'', ''description'', ''data'', ''templateId'',
      ''fileUrl'', ''fileSize'', ''generatedBy'', ''approvedBy'', ''approvedAt'',
      ''complianceScore'', ''sasraSubmissionId'', ''submittedAt'', ''dueDate'', ''metadata'',
      ''version'', ''isActive'', ''createdAt'', ''updatedAt'', ''deletedAt'']"

definition report_aliases :: "string list" where
  "report_aliases = [''creator'', ''approver'', ''reportTemplate'']"

text \<open>
  The messages of the two errors that come from outside the repository: the
  EagerLoadingError for an \<open>include\<close> under an alias that the model does not declare,
  and the database error for a status outside the ENUM.
\<close>

record orm_errors =
  eager_loading_message :: string
  invalid_enum_message :: string

text \<open>
  \<open>Report.findByPk(reportId, { include: [{ model: ReportTemplate, as: alias }] })\<close>: the
  include is resolved against the declared associations before any row is read.
\<close>

definition findByPk :: "orm_errors \<Rightarrow> world \<Rightarrow> nat \<Rightarrow> string \<Rightarrow> string + report option" where
  "findByPk orm w pk alias =
     (if alias \<in> set report_aliases then Inr (db w pk) else Inl (eager_loading_message orm))"

text \<open>The values of an update, by attribute name.\<close>

datatype colval = VStr string | VTime nat

text \<open>The effect of one written value on the fields of a row that the model follows.\<close>

definition set_attribute :: "string \<Rightarrow> colval \<Rightarrow> report \<Rightarrow> report" where
  "set_attribute k v r =
     (if k = ''status'' then (case v of VStr s \<Rightarrow> r\<lparr>status := s\<rparr> | VTime t \<Rightarrow> r)
      else if k = ''metadata'' then
        (case v of VStr s \<Rightarrow> r\<lparr>metadata := Some s\<rparr> | VTime t \<Rightarrow> r)
      else if k = ''outputFile'' then
        (case v of VStr s \<Rightarrow> r\<lparr>outputFile := Some s\<rparr> | VTime t \<Rightarrow> r)
      else if k = ''errorMessage'' then
        (case v of VStr s \<Rightarrow> r\<lparr>errorMessage := Some s\<rparr> | VTime t \<Rightarrow> r)
      else if k = ''startedAt'' then
        (case v of VTime t \<Rightarrow> r\<lparr>startedAt := Some t\<rparr> | VStr s \<Rightarrow> r)
      else if k = ''completedAt'' then
        (case v of VTime t \<Rightarrow> r\<lparr>completedAt := Some t\<rparr> | VStr s \<Rightarrow> r)
      else r)"

definition valid_value :: "string \<times> colval \<Rightarrow> bool" where
  "valid_value kv =
     (if fst kv = ''status''
      then (case snd kv of VStr s \<Rightarrow> s \<in> status_enum | VTime t \<Rightarrow> False)
      else True)"

text \<open>
  An update through the model: only the values of declared attributes are kept, the
  database rejects a status outside the ENUM, and the values kept are written to the row.
\<close>

definition kept_values :: "(string \<times> colval) list \<Rightarrow> (string \<times> colval) list" where
  "kept_values values = filter (\<lambda>kv. fst kv \<in> set report_attributes) values"

definition accepted :: "(string \<times> colval) list \<Rightarrow> bool" where
  "accepted values = list_all valid_value (kept_values values)"

definition write_values :: "(string \<times> colval) list \<Rightarrow> report \<Rightarrow> report" where
  "write_values values r =
     foldl (\<lambda>r kv. set_attribute (fst kv) (snd kv) r) r (kept_values values)"

text \<open>
  \<open>report.update(values)\<close> on the instance loaded under \<open>reportId\<close>; every update of
  \<open>generateReport\<close> writes the status.
\<close>

definition instance_update ::
  "orm_errors \<Rightarrow> nat \<Rightarrow> (string \<times> colval) list \<Rightarrow> report \<Rightarrow> world
     \<Rightarrow> string + report \<times> world" where
  "instance_update orm reportId values r w =
     (if accepted values then
        (let r' = write_values values r
         in Inr (r', w\<lparr>db := (db w)(reportId \<mapsto> r'),
                        trace := trace w @ [Update reportId (status r')]\<rparr>))
      else Inl (invalid_enum_message orm))"

text \<open>\<open>Report.update(values, { where: { id: reportId } })\<close>.\<close>

definition model_update ::
  "orm_errors \<Rightarrow> (string \<times> colval) list \<Rightarrow> nat \<Rightarrow> world \<Rightarrow> string + world" where
  "model_update orm values reportId w =
     (if accepted values then
        (case db w reportId of
           None \<Rightarrow> Inr w
         | Some r \<Rightarrow>
             (let r' = write_values values r
              in Inr (w\<lparr>db := (db w)(reportId \<mapsto> r'),
                         trace := trace w @ [Update reportId (status r')]\<rparr>)))
      else Inl (invalid_enum_message orm))"

text \<open>
  The four strategies fetch, transform and render through the file system and the
  browser: each is a parameter that gives, for the report it receives, its result or the
  message of the error it throws.
\<close>

record strategies =
  generateFinancialReport :: "report \<Rightarrow> string + gen_result"
  generateComplianceReport :: "report \<Rightarrow> string + gen_result"
  generateOperationalReport :: "report \<Rightarrow> string + gen_result"
  generateCustomReport :: "report \<Rightarrow> string + gen_result"

text \<open>The \<open>switch\<close> on \<open>report.type\<close>, with the strategy call it makes, if any.\<close>

definition dispatch :: "strategies \<Rightarrow> report \<Rightarrow> effect list \<times> (string + gen_result)" where
  "dispatch strat r =
     (if rtype r = ''financial'' then ([Run ''financial''], generateFinancialReport strat r)
      else if rtype r = ''compliance'' then ([Run ''compliance''], generateComplianceReport strat r)
      else if rtype r = ''operational'' then
        ([Run ''operational''], generateOperationalReport strat r)
      else if rtype r = ''custom'' then ([Run ''custom''], generateCustomReport strat r)
      else ([], Inl (''Unsupported report type: '' @ rtype r)))"

definition emit :: "status_event \<Rightarrow> world \<Rightarrow> world" where
  "emit e w = w\<lparr>trace := trace w @ [Emit e]\<rparr>"

text \<open>What follows the status update and the event at the start: the strategy, and the
  update and the event of completion.\<close>

definition run_strategy ::
  "orm_errors \<Rightarrow> strategies \<Rightarrow> nat \<Rightarrow> nat \<Rightarrow> report \<Rightarrow> world
     \<Rightarrow> world \<times> (string + gen_result)" where
  "run_strategy orm strat t_end reportId r w =
     (let (ran, result) = dispatch strat r;
          w = w\<lparr>trace := trace w @ ran\<rparr>
      in case result of
           Inl msg \<Rightarrow> (w, Inl msg)
         | Inr res \<Rightarrow>
             (case instance_update orm reportId
                     [(''status'', VStr ''completed''), (''completedAt'', VTime t_end),
                      (''outputFile'', VStr (filePath res)),
                      (''metadata'', VStr (result_metadata res))] r w of
                Inl e \<Rightarrow> (w, Inl e)
              | Inr (r, w) \<Rightarrow>
                  (emit \<lparr>ev_reportId = rid r, ev_status = ''completed'',
                          ev_message = ''Report generated successfully'',
                          ev_downloadUrl = Some (''/api/reports/''
                            @ digits_of 22 (int (rid r)) @ ''/download'')\<rparr> w,
                   Inr res)))"

text \<open>The \<open>try\<close> block; the report is loaded with its template under the alias
  \<open>template\<close>.\<close>

definition try_generate ::
  "orm_errors \<Rightarrow> strategies \<Rightarrow> nat \<Rightarrow> nat \<Rightarrow> world \<Rightarrow> nat
     \<Rightarrow> world \<times> (string + gen_result)" where
  "try_generate orm strat t_start t_end w reportId =
     (case findByPk orm w reportId ''template'' of
        Inl e \<Rightarrow> (w, Inl e)
      | Inr None \<Rightarrow> (w, Inl ''Report not found'')
      | Inr (Some found) \<Rightarrow>
          (case instance_update orm reportId
                  [(''status'', VStr ''processing''), (''startedAt'', VTime t_start)] found w of
             Inl e \<Rightarrow> (w, Inl e)
           | Inr (r, w) \<Rightarrow>
               run_strategy orm strat t_end reportId r
                 (emit \<lparr>ev_reportId = rid r, ev_status = ''processing'',
                         ev_message = ''Report generation started'',
                         ev_downloadUrl = None\<rparr> w)))"

text \<open>The \<open>catch\<close> block: it rethrows the error, unless its own update is rejected.\<close>

definition on_failure ::
  "orm_errors \<Rightarrow> nat \<Rightarrow> string \<Rightarrow> nat \<Rightarrow> world \<Rightarrow> world \<times> (string + gen_result)" where
  "on_failure orm reportId msg t w =
     (if reportId \<noteq> 0 then
        (case model_update orm
                [(''status'', VStr ''failed''), (''errorMessage'', VStr msg),
                 (''completedAt'', VTime t)] reportId w of
           Inl e \<Rightarrow> (w, Inl e)
         | Inr w \<Rightarrow>
             (emit \<lparr>ev_reportId = reportId, ev_status = ''failed'', ev_message = msg,
                     ev_downloadUrl = None\<rparr> w,
              Inl msg))
      else (w, Inl msg))"

definition generateReport ::
  "orm_errors \<Rightarrow> strategies \<Rightarrow> nat \<Rightarrow> nat \<Rightarrow> world \<Rightarrow> nat
     \<Rightarrow> world \<times> (string + gen_result)" where
  "generateReport orm strat t_start t_end w reportId =
     (case try_generate orm strat t_start t_end w reportId of
        (w, Inr res) \<Rightarrow> (w, Inr res)
      | (w, Inl msg) \<Rightarrow> on_failure orm reportId msg t_end w)"

definition strategy_runs :: "effect list \<Rightarrow> nat" where
  "strategy_runs tr = length (filter (\<lambda>e. case e of Run _ \<Rightarrow> True | _ \<Rightarrow> False) tr)"

definition statuses_written :: "effect list \<Rightarrow> string list" where
  "statuses_written tr = concat (map (\<lambda>e. case e of Update _ s \<Rightarrow> [s] | _ \<Rightarrow> []) tr)"

definition one_report :: "report \<Rightarrow> world" where
  "one_report r = \<lparr>db = Map.empty(rid r \<mapsto> r), trace = []\<rparr>"

section \<open>Sample inputs\<close>

text \<open>The two records \<open>fetchCustomData\<close> returns.\<close>

definition sample_data :: "item list" where
  "sample_data =
     [[(''id'', JNum (Fin 1)), (''name'', JStr ''Sample Data 1''), (''value'', JNum (Fin 100))],
      [(''id'', JNum (Fin 2)), (''name'', JStr ''Sample Data 2''), (''value'', JNum (Fin 200))]]"

definition value_equals_100 :: "criterion list" where
  "value_equals_100 = [\<lparr>cfield = ''value'', operator = ''equals'', cvalue = JNum (Fin 100)\<rparr>]"

definition value_between :: "criterion list" where
  "value_between = [\<lparr>cfield = ''value'', operator = ''between'', cvalue = JNum (Fin 150)\<rparr>]"

definition custom_report :: report where
  "custom_report = blank_report\<lparr>rtype := ''custom''\<rparr>"

text \<open>Three records of one group, and three records of which one has the group key
  \<open>constructor\<close>.\<close>

definition deposits :: "item list" where
  "deposits =
     [[(''branch'', JStr ''Thika''), (''amount'', JNum (Fin 2))],
      [(''branch'', JStr ''Thika''), (''amount'', JNum (Fin 4))],
      [(''branch'', JStr ''Thika''), (''amount'', JNum (Fin 6))]]"

definition members :: "item list" where
  "members =
     [[(''occupation'', JStr ''teacher'')],
      [(''occupation'', JStr ''constructor'')],
      [(''occupation'', JStr ''teacher'')]]"

definition avg_amount :: "aggregate_field list" where
  "avg_amount = [\<lparr>fname = ''mean'', operation = ''avg'', sourceField = ''amount''\<rparr>]"

definition avg_value :: "aggregate_field list" where
  "avg_value = [\<lparr>fname = ''mean'', operation = ''avg'', sourceField = ''value''\<rparr>]"

definition count_rows :: "aggregate_field list" where
  "count_rows = [\<lparr>fname = ''n'', operation = ''count'', sourceField = ''id''\<rparr>]"

text \<open>The value of a numeric field of a group, and its sum over the groups of a result.\<close>

definition field_value :: "string \<Rightarrow> item \<Rightarrow> rat" where
  "field_value name g = (case item_get g name of JNum (Fin x) \<Rightarrow> x | _ \<Rightarrow> 0)"

definition field_total :: "string \<Rightarrow> item list \<Rightarrow> rat" where
  "field_total name groups = sum_list (map (field_value name) groups)"

text \<open>After \<open>m\<close> records, none of them under an inherited key, \<open>grouped\<close> has distinct keys,
  and the field \<open>n\<close> of its groups holds whole numbers that add up to \<open>m\<close>.\<close>

definition counted :: "string \<Rightarrow> item jsobj \<Rightarrow> nat \<Rightarrow> bool" where
  "counted n G m =
     (distinct (map fst G)
      \<and> (\<forall>g \<in> snd ` set G. \<exists>c :: nat. c \<le> m \<and> item_get g n = JNum (Fin (of_nat c)))
      \<and> sum_list (map (field_value n) (map snd G)) = of_nat m)"

section \<open>Verified properties\<close>

subsection \<open>\<open>toJSON\<close> hides the credentials\<close>

lemma same_unless_secret_pair:
  "same_unless_secret (k1, v1) (k2, v2) = (k1 = k2 \<and> (k1 \<notin> secret_fields \<longrightarrow> v1 = v2))"
  by (simp add: same_unless_secret_def)

lemma rel_filter_keys:
  "list_all2 same_unless_secret xs ys \<Longrightarrow>
   list_all2 same_unless_secret (filter (\<lambda>(k, v). P k) xs) (filter (\<lambda>(k, v). P k) ys)"
  by (induction rule: list_all2_induct) (auto simp: same_unless_secret_pair)

lemma rel_insort_key:
  "list_all2 same_unless_secret xs ys \<Longrightarrow> same_unless_secret x y \<Longrightarrow>
   list_all2 same_unless_secret
     (insort_key (\<lambda>(k, v). f k) x xs) (insort_key (\<lambda>(k, v). f k) y ys)"
  by (induction rule: list_all2_induct) (auto simp: same_unless_secret_pair split: prod.splits)

lemma rel_sort_key:
  "list_all2 same_unless_secret xs ys \<Longrightarrow>
   list_all2 same_unless_secret (sort_key (\<lambda>(k, v). f k) xs) (sort_key (\<lambda>(k, v). f k) ys)"
  by (induction rule: list_all2_induct) (auto intro: rel_insort_key)

lemma rel_own_entries:
  "list_all2 same_unless_secret xs ys \<Longrightarrow>
   list_all2 same_unless_secret (own_entries xs) (own_entries ys)"
  unfolding own_entries_def
  by (intro list_all2_appendI rel_sort_key rel_filter_keys)

lemma rel_keys: "list_all2 same_unless_secret xs ys \<Longrightarrow> fst ` set xs = fst ` set ys"
  by (induction rule: list_all2_induct) (auto simp: same_unless_secret_pair)

lemma rel_js_set:
  assumes "list_all2 same_unless_secret t1 t2" "k \<notin> secret_fields \<longrightarrow> v1 = v2"
  shows "list_all2 same_unless_secret (js_set t1 k v1) (js_set t2 k v2)"
proof -
  have m: "list_all2 same_unless_secret
            (map (\<lambda>(k', v'). if k' = k then (k', v1) else (k', v')) t1)
            (map (\<lambda>(k', v'). if k' = k then (k', v2) else (k', v')) t2)"
    using assms
    by (induction rule: list_all2_induct) (auto simp: same_unless_secret_pair split: if_splits)
  have a: "list_all2 same_unless_secret (t1 @ [(k, v1)]) (t2 @ [(k, v2)])"
    using assms by (auto intro: list_all2_appendI simp: same_unless_secret_pair)
  show ?thesis
    using m a rel_keys[OF assms(1)] by (simp add: js_set_def)
qed

lemma rel_assign:
  "list_all2 same_unless_secret xs ys \<Longrightarrow> list_all2 same_unless_secret t1 t2 \<Longrightarrow>
   list_all2 same_unless_secret
     (foldl (\<lambda>t (k, v). js_set t k v) t1 xs) (foldl (\<lambda>t (k, v). js_set t k v) t2 ys)"
proof (induction arbitrary: t1 t2 rule: list_all2_induct)
  case Nil
  then show ?case by simp
next
  case (Cons x xs y ys)
  from Cons.hyps(1) Cons.prems
  have "list_all2 same_unless_secret (js_set t1 (fst x) (snd x)) (js_set t2 (fst y) (snd y))"
    by (cases x; cases y) (auto simp: same_unless_secret_pair intro!: rel_js_set)
  from Cons.IH[OF this] show ?case by (simp add: case_prod_beta)
qed

lemma rel_public_eq:
  "list_all2 same_unless_secret xs ys \<Longrightarrow>
   filter (\<lambda>(k, v). k \<notin> secret_fields) xs = filter (\<lambda>(k, v). k \<notin> secret_fields) ys"
  by (induction rule: list_all2_induct) (auto simp: same_unless_secret_pair)

lemma toJSON_filter:
  "toJSON u = filter (\<lambda>(k, v). k \<notin> secret_fields) (object_assign [] u)"
  by (auto simp: toJSON_def js_delete_def secret_fields_def intro!: filter_cong)

text \<open>
  Claim C10. Two User value objects that differ only in \<open>password\<close>,
  \<open>passwordResetToken\<close> and \<open>passwordResetExpires\<close> have the same \<open>toJSON\<close> output,
  and the output has none of the three properties.
\<close>

theorem toJSON_hides_secrets:
  "differ_only_in_secrets u1 u2 \<Longrightarrow>
     toJSON u1 = toJSON u2 \<and> fst ` set (toJSON u1) \<inter> secret_fields = {}"
proof -
  assume "differ_only_in_secrets u1 u2"
  then have "list_all2 same_unless_secret (own_entries u1) (own_entries u2)"
    unfolding differ_only_in_secrets_def by (rule rel_own_entries)
  then have "list_all2 same_unless_secret (object_assign [] u1) (object_assign [] u2)"
    unfolding object_assign_def by (rule rel_assign) simp
  then have "toJSON u1 = toJSON u2"
    unfolding toJSON_filter by (rule rel_public_eq)
  moreover have "fst ` set (toJSON u1) \<inter> secret_fields = {}"
    unfolding toJSON_filter by auto
  ultimately show ?thesis by simp
qed

lemma alice_differs: "differ_only_in_secrets alice alice_reset"
  by (simp add: differ_only_in_secrets_def alice_def alice_reset_def same_unless_secret_def
      secret_fields_def)

lemma toJSON_alice:
  "toJSON alice = [(''id'', ''1''), (''email'', ''a@sacco.com''), (''role'', ''user'')]"
  by (simp add: toJSON_def alice_def object_assign_def own_entries_def array_index_def
      js_set_def js_delete_def is_digit_def)

theorem toJSON_hides_secrets_witness:
  "differ_only_in_secrets alice alice_reset \<and> alice \<noteq> alice_reset
   \<and> toJSON alice = toJSON alice_reset
   \<and> toJSON alice = [(''id'', ''1''), (''email'', ''a@sacco.com''), (''role'', ''user'')]"
  using toJSON_hides_secrets[OF alice_differs] alice_differs toJSON_alice
  by (simp add: alice_def alice_reset_def)

subsection \<open>Download of a report that is not ready\<close>

text \<open>
  Claim C8. When the report's status is not \<open>completed\<close>, or its output file is unset,
  the download handler answers with status 400 and an error body, and makes no other call
  on the response: no file is streamed.
\<close>

theorem download_not_ready:
  "status r \<noteq> ''completed'' \<or> falsy_string (outputFile r) \<Longrightarrow>
   download (Inr (Some r)) path_join existsSync logActivity
     = [Status 400, Json False ''Report not ready for download'' None]
   \<and> error_response (download (Inr (Some r)) path_join existsSync logActivity)
   \<and> \<not> streams_file (download (Inr (Some r)) path_join existsSync logActivity)"
  by (auto simp: download_def error_response_def streams_file_def)

theorem download_not_ready_witness:
  "status blank_report \<noteq> ''completed''
   \<and> download (Inr (Some blank_report)) (\<lambda>p. ''/srv/'' @ p) (\<lambda>p. True) None
     = [Status 400, Json False ''Report not ready for download'' None]"
  using download_not_ready[of blank_report "\<lambda>p. ''/srv/'' @ p" "\<lambda>p. True" None]
  by (simp add: blank_report_def)

subsection \<open>The due date of a monthly report\<close>

lemma carry_days_15: "carry_days y m 15 = \<lparr>year = y, month = m, day = 15\<rparr>"
  by (subst carry_days.simps) (simp add: days_in_month_def)

text \<open>
  Claim C7. For a report of type \<open>monthly\<close> created without a due date, the
  \<open>beforeCreate\<close> hook sets the due date to the 15th of the month after the current
  one (January of the next year when created in December). The current date has a month
  index below 12 and a year that the Date constructor does not read as 19xx.
\<close>

theorem beforeCreate_monthly_due_date:
  "rtype r = ''monthly'' \<Longrightarrow> dueDate r = None \<Longrightarrow> month now < 12 \<Longrightarrow> year now \<notin> {0..99} \<Longrightarrow>
   dueDate (beforeCreate now r)
     = Some \<lparr>year = (if month now = 11 then year now + 1 else year now),
             month = (if month now = 11 then 0 else month now + 1),
             day = 15\<rparr>"
  by (auto simp: beforeCreate_def new_Date_def carry_days_15 Let_def)

theorem beforeCreate_monthly_due_date_witness:
  "rtype blank_report = ''monthly'' \<and> dueDate blank_report = None
   \<and> dueDate (beforeCreate \<lparr>year = 2026, month = 11, day = 2\<rparr> blank_report)
       = Some \<lparr>year = 2027, month = 0, day = 15\<rparr>"
  using beforeCreate_monthly_due_date[of blank_report "\<lparr>year = 2026, month = 11, day = 2\<rparr>"]
  by (simp add: blank_report_def)

subsection \<open>Filter steps\<close>

lemma evaluateCriterion_unrecognized:
  "operator c \<notin> {''equals'', ''greater'', ''less'', ''contains''} \<Longrightarrow>
   evaluateCriterion rt it c = Inr True"
  by (simp add: evaluateCriterion_def)

lemma evaluateFilter_unrecognized:
  "\<forall>c \<in> set cs. operator c \<notin> {''equals'', ''greater'', ''less'', ''contains''} \<Longrightarrow>
   evaluateFilter rt it cs = Inr True"
  by (induction cs) (simp_all add: evaluateCriterion_unrecognized)

lemma evaluateFilter_equals:
  "\<forall>c \<in> set cs. operator c = ''equals'' \<Longrightarrow> \<exists>b. evaluateFilter rt it cs = Inr b"
  by (induction cs) (auto simp: evaluateCriterion_def split: bool.splits)

lemma filter_items_Inr:
  "\<forall>it \<in> set data. \<exists>b. evaluateFilter rt it cs = Inr b \<Longrightarrow>
   filter_items rt cs data = Inr (filter (\<lambda>it. evaluateFilter rt it cs = Inr True) data)"
  by (induction data) auto

lemma filter_items_all:
  "\<forall>it \<in> set data. evaluateFilter rt it cs = Inr True \<Longrightarrow> filter_items rt cs data = Inr data"
  by (induction data) auto

text \<open>
  Claim C9. A criterion whose operator is none of \<open>equals\<close>, \<open>greater\<close>, \<open>less\<close>,
  \<open>contains\<close> evaluates to true on every record, without raising; so a filter step
  whose criteria all have such operators returns its input unchanged.
\<close>

theorem unrecognized_operators_keep_all:
  "\<forall>c \<in> set criteria. operator c \<notin> {''equals'', ''greater'', ''less'', ''contains''} \<Longrightarrow>
   (\<forall>c \<in> set criteria. \<forall>it. evaluateCriterion rt it c = Inr True)
   \<and> (\<forall>it. evaluateFilter rt it criteria = Inr True)
   \<and> applyTemplateTransformations rt data [Filter criteria] = Inr data"
  by (simp add: evaluateCriterion_unrecognized evaluateFilter_unrecognized filter_items_all
      apply_transformation_def)

theorem unrecognized_operators_keep_all_witness:
  "map operator value_between = [''between'']
   \<and> applyTemplateTransformations decimal_runtime sample_data [Filter value_between]
       = Inr sample_data"
  using unrecognized_operators_keep_all[of value_between decimal_runtime sample_data]
  by (simp add: value_between_def)

text \<open>
  Claim C6. With criteria that all use the operator \<open>equals\<close>, a filter step succeeds,
  and applying it again to its own output gives that output again; the pipeline with the
  step twice gives the same as the pipeline with the step once.
\<close>

theorem equals_filter_idempotent:
  "\<forall>c \<in> set criteria. operator c = ''equals'' \<Longrightarrow>
   \<exists>kept. applyTemplateTransformations rt data [Filter criteria] = Inr kept
     \<and> applyTemplateTransformations rt kept [Filter criteria] = Inr kept
     \<and> applyTemplateTransformations rt data [Filter criteria, Filter criteria] = Inr kept"
proof -
  assume eq: "\<forall>c \<in> set criteria. operator c = ''equals''"
  let ?keep = "\<lambda>it. evaluateFilter rt it criteria = Inr True"
  have total: "\<forall>it \<in> set xs. \<exists>b. evaluateFilter rt it criteria = Inr b" for xs
    using evaluateFilter_equals[OF eq] by blast
  have once: "filter_items rt criteria xs = Inr (filter ?keep xs)" for xs
    by (rule filter_items_Inr[OF total])
  have twice: "filter_items rt criteria (filter ?keep data) = Inr (filter ?keep data)"
    by (simp add: once)
  show ?thesis
    by (rule exI[of _ "filter ?keep data"]) (simp add: apply_transformation_def once)
qed

lemma sample_equals_100:
  "applyTemplateTransformations decimal_runtime sample_data [Filter value_equals_100]
     = Inr [hd sample_data]"
  by (simp add: sample_data_def value_equals_100_def apply_transformation_def
      evaluateCriterion_def item_get_def js_get_def)

theorem equals_filter_idempotent_witness:
  "map operator value_equals_100 = [''equals'']
   \<and> applyTemplateTransformations decimal_runtime sample_data [Filter value_equals_100]
       = Inr [hd sample_data]
   \<and> applyTemplateTransformations decimal_runtime [hd sample_data] [Filter value_equals_100]
       = Inr [hd sample_data]"
  using equals_filter_idempotent[of value_equals_100 decimal_runtime sample_data]
    sample_equals_100
  by (auto simp: value_equals_100_def)

subsection \<open>The orchestrator's status writes\<close>

text \<open>The load is rejected, whatever the table holds: no association of the Report model
  has the alias \<open>template\<close>.\<close>

lemma try_generate_rejected:
  "try_generate orm strat t1 t2 w i = (w, Inl (eager_loading_message orm))"
  by (simp add: try_generate_def findByPk_def report_aliases_def)

lemma generateReport_is_on_failure:
  "generateReport orm strat t1 t2 w i = on_failure orm i (eager_loading_message orm) t2 w"
  by (simp add: generateReport_def try_generate_rejected)

text \<open>The update of the \<open>catch\<close> block is accepted, and writes the status only: the model
  declares neither \<open>errorMessage\<close> nor \<open>completedAt\<close>.\<close>

lemma failed_update:
  "accepted [(''status'', VStr ''failed''), (''errorMessage'', VStr msg), (''completedAt'', VTime t)]"
  "write_values [(''status'', VStr ''failed''), (''errorMessage'', VStr msg),
     (''completedAt'', VTime t)] r = r\<lparr>status := ''failed''\<rparr>"
  by (simp_all add: accepted_def write_values_def kept_values_def report_attributes_def
      valid_value_def status_enum_def set_attribute_def)

lemma on_failure_stored:
  "db w i = Some r \<Longrightarrow> i \<noteq> 0 \<Longrightarrow>
   on_failure orm i msg t w
     = (\<lparr>db = (db w)(i \<mapsto> r\<lparr>status := ''failed''\<rparr>),
         trace = trace w @ [Update i ''failed'',
           Emit \<lparr>ev_reportId = i, ev_status = ''failed'', ev_message = msg,
                 ev_downloadUrl = None\<rparr>]\<rparr>,
        Inl msg)"
  by (simp add: on_failure_def model_update_def failed_update emit_def Let_def)

text \<open>The update that the \<open>try\<close> block makes after a load is one that the database
  rejects: \<open>processing\<close> is not a value of the ENUM.\<close>

lemma processing_update_rejected:
  "instance_update orm i [(''status'', VStr ''processing''), (''startedAt'', VTime t)] r w
     = Inl (invalid_enum_message orm)"
  by (simp add: instance_update_def accepted_def kept_values_def report_attributes_def
      valid_value_def status_enum_def)

text \<open>
  Claim C3. The run of \<open>generateReport\<close> on a stored custom report, whatever the
  strategies: the load of the report is rejected, since the include names the alias
  \<open>template\<close> and the model declares \<open>reportTemplate\<close>. The only status written is
  \<open>failed\<close>: \<open>generating\<close> is never written, and no strategy runs.
\<close>

theorem generateReport_never_generating:
  "trace (fst (generateReport orm strat t1 t2 (one_report custom_report) 1))
     = [Update 1 ''failed'',
        Emit \<lparr>ev_reportId = 1, ev_status = ''failed'',
              ev_message = eager_loading_message orm, ev_downloadUrl = None\<rparr>]
   \<and> statuses_written (trace (fst (generateReport orm strat t1 t2 (one_report custom_report) 1)))
       = [''failed'']
   \<and> strategy_runs (trace (fst (generateReport orm strat t1 t2 (one_report custom_report) 1)))
       = 0"
proof -
  have "db (one_report custom_report) 1 = Some custom_report"
    by (simp add: one_report_def custom_report_def blank_report_def)
  from on_failure_stored[OF this, of orm "eager_loading_message orm" t2]
  show ?thesis
    by (simp add: generateReport_is_on_failure one_report_def statuses_written_def
        strategy_runs_def)
qed

text \<open>
  Claim C4. The same run, as a failure of the generation: the error is rethrown and the
  \<open>failed\<close> event carries its message, but the update of the row stores the status
  only. The error message and the completion time that the \<open>catch\<close> block passes to the
  update are not attributes of the model, and the row keeps neither.
\<close>

theorem generateReport_failure_keeps_status_only:
  "snd (generateReport orm strat t1 t2 (one_report custom_report) 1)
     = Inl (eager_loading_message orm)
   \<and> db (fst (generateReport orm strat t1 t2 (one_report custom_report) 1)) 1
       = Some (custom_report\<lparr>status := ''failed''\<rparr>)
   \<and> map_option errorMessage
         (db (fst (generateReport orm strat t1 t2 (one_report custom_report) 1)) 1) = Some None
   \<and> map_option completedAt
         (db (fst (generateReport orm strat t1 t2 (one_report custom_report) 1)) 1) = Some None
   \<and> last (trace (fst (generateReport orm strat t1 t2 (one_report custom_report) 1)))
       = Emit \<lparr>ev_reportId = 1, ev_status = ''failed'',
               ev_message = eager_loading_message orm, ev_downloadUrl = None\<rparr>"
proof -
  have "db (one_report custom_report) 1 = Some custom_report"
    by (simp add: one_report_def custom_report_def blank_report_def)
  from on_failure_stored[OF this, of orm "eager_loading_message orm" t2]
  show ?thesis
    by (simp add: generateReport_is_on_failure one_report_def custom_report_def
        blank_report_def)
qed

subsection \<open>Rounding to binary64\<close>

lemma pow2_pos: "0 < (2::rat) powi k"
  by (simp add: zero_less_power_int)

lemma pow2_add: "(2::rat) powi (a + b) = 2 powi a * 2 powi b"
  by (simp add: power_int_add)

lemma pow2_mono: "a \<le> b \<Longrightarrow> (2::rat) powi a \<le> 2 powi b"
  by (simp add: power_int_increasing)

lemma pow2_strict_mono: "a < b \<Longrightarrow> (2::rat) powi a < 2 powi b"
  by (simp add: power_int_strict_increasing)

lemma pow2_less_cancel: "(2::rat) powi a < 2 powi b \<Longrightarrow> a < b"
  by (metis not_le pow2_mono)

lemma bitlen_pow2_bounds:
  assumes "0 < p"
  shows "2 powi (bitlen p - 1) \<le> (of_int p :: rat)" and "(of_int p :: rat) < 2 powi bitlen p"
proof -
  have b1: "1 \<le> bitlen p" using assms by (auto simp: bitlen_alt_def)
  from bitlen_bounds[OF assms]
  have lo: "2 ^ nat (bitlen p - 1) \<le> p" and hi: "p < 2 ^ nat (bitlen p)" by auto
  have "(of_int (2 ^ nat (bitlen p - 1)) :: rat) \<le> of_int p"
    using lo by (simp only: of_int_le_iff)
  then show "2 powi (bitlen p - 1) \<le> (of_int p :: rat)"
    using b1 by (simp add: power_int_def)
  have "(of_int p :: rat) < of_int (2 ^ nat (bitlen p))"
    using hi by (simp only: of_int_less_iff)
  then show "(of_int p :: rat) < 2 powi bitlen p"
    using b1 by (simp add: power_int_def)
qed

lemma ilog2_bounds:
  assumes "0 < x"
  shows "2 powi ilog2 x \<le> x" and "x < 2 powi (ilog2 x + 1)"
proof -
  obtain p q where pq: "quotient_of x = (p, q)" by force
  have q: "0 < q" using quotient_of_denom_pos[OF pq] .
  have x: "x = of_int p / of_int q" using quotient_of_div[OF pq] .
  have p: "0 < p" using assms q x by (simp add: zero_less_divide_iff)
  define k where "k = bitlen p - bitlen q"
  note P = bitlen_pow2_bounds[OF p] and Q = bitlen_pow2_bounds[OF q]
  have qpos: "0 < (of_int q :: rat)" using q by simp
  have "x * of_int q < (2::rat) powi bitlen p" using P(2) x qpos by simp
  also have "\<dots> = 2 powi (k + 1) * 2 powi (bitlen q - 1)"
    by (simp add: k_def flip: pow2_add)
  also have "\<dots> \<le> 2 powi (k + 1) * of_int q"
    using Q(1) by (simp add: mult_left_mono)
  finally have hi: "x < 2 powi (k + 1)" using qpos by simp
  have "2 powi (k - 1) * of_int q \<le> (2::rat) powi (k - 1) * 2 powi bitlen q"
    using Q(2) by (simp add: mult_left_mono)
  also have "\<dots> = 2 powi (bitlen p - 1)"
    by (simp add: k_def flip: pow2_add)
  also have "\<dots> \<le> x * of_int q" using P(1) x qpos by simp
  finally have lo: "2 powi (k - 1) \<le> x" using qpos by simp
  have il: "ilog2 x = (if 2 powi k \<le> x then k else k - 1)"
    by (simp add: ilog2_def pq k_def Let_def)
  show "2 powi ilog2 x \<le> x" using lo by (simp add: il)
  show "x < 2 powi (ilog2 x + 1)" using hi by (auto simp: il not_le)
qed

lemma ilog2_unique:
  assumes "2 powi e \<le> x" "x < 2 powi (e + 1)"
  shows "ilog2 x = e"
proof -
  have x: "0 < x" using assms(1) pow2_pos[of e] by linarith
  note B = ilog2_bounds[OF x]
  have "2 powi e < (2::rat) powi (ilog2 x + 1)" using assms(1) B(2) by linarith
  then have "e < ilog2 x + 1" by (rule pow2_less_cancel)
  moreover have "2 powi ilog2 x < (2::rat) powi (e + 1)" using assms(2) B(1) by linarith
  then have "ilog2 x < e + 1" by (rule pow2_less_cancel)
  ultimately show ?thesis by simp
qed

lemma ilog2_mono:
  assumes "0 < x" "x \<le> y"
  shows "ilog2 x \<le> ilog2 y"
proof -
  have y: "0 < y" using assms by simp
  have "2 powi ilog2 x < (2::rat) powi (ilog2 y + 1)"
    using ilog2_bounds(1)[OF assms(1)] ilog2_bounds(2)[OF y] assms(2) by linarith
  then have "ilog2 x < ilog2 y + 1" by (rule pow2_less_cancel)
  then show ?thesis by simp
qed

lemma round_half_even_near: "\<bar>of_int (round_half_even r) - r\<bar> \<le> 1 / 2"
  unfolding round_half_even_def Let_def by (auto simp: abs_if) linarith+

lemma round_half_even_of_int [simp]: "round_half_even (of_int n) = n"
  by (simp add: round_half_even_def)

lemma round_half_even_mono:
  assumes "r \<le> s"
  shows "round_half_even r \<le> round_half_even s"
proof -
  have fl: "\<lfloor>r\<rfloor> \<le> \<lfloor>s\<rfloor>" using assms by (rule floor_mono)
  show ?thesis
  proof (cases "\<lfloor>r\<rfloor> = \<lfloor>s\<rfloor>")
    case True
    then show ?thesis using assms
      unfolding round_half_even_def Let_def by auto
  next
    case False
    then have "\<lfloor>r\<rfloor> + 1 \<le> \<lfloor>s\<rfloor>" using fl by simp
    moreover have "round_half_even r \<le> \<lfloor>r\<rfloor> + 1"
      unfolding round_half_even_def Let_def by auto
    moreover have "\<lfloor>s\<rfloor> \<le> round_half_even s"
      unfolding round_half_even_def Let_def by auto
    ultimately show ?thesis by linarith
  qed
qed


lemma pow2_split:
  "(2::rat) powi e = of_int (2 ^ n) * 2 powi (e - int n)"
proof -
  have "e = int n + (e - int n)" by simp
  then have "(2::rat) powi e = 2 powi (int n + (e - int n))" by (rule arg_cong)
  also have "\<dots> = 2 powi int n * 2 powi (e - int n)" by (rule pow2_add)
  finally show ?thesis by simp
qed

lemma ulp64_pos [simp]: "0 < ulp64 x"
  by (simp add: ulp64_def)

lemma ulp64_nonneg [simp]: "0 \<le> ulp64 x"
  by (simp add: ulp64_def)

lemma nearest64_near: "\<bar>nearest64 x - x\<bar> \<le> ulp64 x / 2"
proof -
  define n :: rat where "n = of_int (round_half_even (x / ulp64 x))"
  have nz: "ulp64 x \<noteq> 0" by (simp add: ulp64_def)
  have "nearest64 x - x = (n - x / ulp64 x) * ulp64 x"
    by (simp add: nearest64_def n_def left_diff_distrib nz)
  then have "\<bar>nearest64 x - x\<bar> = \<bar>n - x / ulp64 x\<bar> * ulp64 x"
    by (simp add: abs_mult)
  also have "\<dots> \<le> 1 / 2 * ulp64 x"
    unfolding n_def by (intro mult_right_mono round_half_even_near) simp
  finally show ?thesis by simp
qed

lemma ulp64_normal:
  assumes "2 powi (- 1022) \<le> x"
  shows "ulp64 x \<le> x * 2 powi (- 52)"
proof -
  have x: "0 < x" using assms pow2_pos[of "- 1022"] by linarith
  have "- 1022 \<le> ilog2 x"
    using ilog2_mono[of "2 powi (- 1022)" x] assms ilog2_unique[of "- 1022" "2 powi (- 1022)"]
    by (simp add: pow2_strict_mono)
  then have "ulp64 x = 2 powi ilog2 x * 2 powi (- 52)"
    unfolding ulp64_def max_def using pow2_add[of "ilog2 x" "- 52"] by simp
  then show ?thesis using ilog2_bounds(1)[OF x] by (simp add: mult_right_mono)
qed

lemma nearest64_mono:
  assumes "0 < x" "x \<le> y"
  shows "nearest64 x \<le> nearest64 y"
proof -
  define ex where "ex = max (ilog2 x) (- 1022)"
  define ey where "ey = max (ilog2 y) (- 1022)"
  have y: "0 < y" using assms by simp
  have le: "ex \<le> ey" using ilog2_mono[OF assms] by (simp add: ex_def ey_def)
  have ux: "ulp64 x = 2 powi (ex - 52)" and uy: "ulp64 y = 2 powi (ey - 52)"
    by (simp_all add: ulp64_def ex_def ey_def)
  show ?thesis
  proof (cases "ex = ey")
    case True
    then have u: "ulp64 x = ulp64 y" by (simp add: ux uy)
    have "x / ulp64 y \<le> y / ulp64 y" using assms by (simp add: divide_right_mono)
    then have "round_half_even (x / ulp64 y) \<le> round_half_even (y / ulp64 y)"
      by (rule round_half_even_mono)
    then show ?thesis by (simp add: nearest64_def u mult_right_mono)
  next
    case False
    then have lt: "ex + 1 \<le> ey" using le by simp
    then have ey: "ey = ilog2 y" by (auto simp: ex_def ey_def)
    have "x < 2 powi (ilog2 x + 1)" by (rule ilog2_bounds(2)[OF assms(1)])
    also have "\<dots> \<le> 2 powi (ex + 1)" by (rule pow2_mono) (simp add: ex_def)
    finally have "x / ulp64 x \<le> 2 powi (ex + 1) / 2 powi (ex - 52)"
      by (simp add: ux divide_right_mono)
    also have "\<dots> = of_int (2 ^ 53)"
    proof -
      have "(2::rat) powi (ex + 1) = of_int (2 ^ 53) * 2 powi (ex - 52)"
        using pow2_split[of "ex + 1" 53] by simp
      then show ?thesis by simp
    qed
    finally have "round_half_even (x / ulp64 x) \<le> round_half_even (of_int (2 ^ 53))"
      by (rule round_half_even_mono)
    then have "(of_int (round_half_even (x / ulp64 x)) :: rat) \<le> of_int (2 ^ 53)"
      unfolding round_half_even_of_int by (simp only: of_int_le_iff)
    then have "nearest64 x \<le> of_int (2 ^ 53) * 2 powi (ex - 52)"
      unfolding nearest64_def ux by (rule mult_right_mono) simp
    also have "\<dots> = 2 powi (ex + 1)"
      using pow2_split[of "ex + 1" 53] by simp
    also have "\<dots> \<le> 2 powi ey" using lt by (rule pow2_mono)
    finally have a: "nearest64 x \<le> 2 powi ey" .
    have "2 powi ey \<le> y" using ilog2_bounds(1)[OF y] by (simp add: ey)
    then have "2 powi ey / 2 powi (ey - 52) \<le> y / ulp64 y"
      by (simp add: uy divide_right_mono)
    moreover have "(2::rat) powi ey / 2 powi (ey - 52) = of_int (2 ^ 52)"
    proof -
      have "(2::rat) powi ey = of_int (2 ^ 52) * 2 powi (ey - 52)"
        using pow2_split[of ey 52] by simp
      then show ?thesis by simp
    qed
    ultimately have "round_half_even (of_int (2 ^ 52)) \<le> round_half_even (y / ulp64 y)"
      by (intro round_half_even_mono) simp
    then have "(of_int (2 ^ 52) :: rat) \<le> of_int (round_half_even (y / ulp64 y))"
      unfolding round_half_even_of_int by (simp only: of_int_le_iff)
    then have "of_int (2 ^ 52) * 2 powi (ey - 52) \<le> nearest64 y"
      unfolding nearest64_def uy by (rule mult_right_mono) simp
    moreover have "(of_int (2 ^ 52) :: rat) * 2 powi (ey - 52) = 2 powi ey"
      using pow2_split[of ey 52] by simp
    ultimately show ?thesis using a by linarith
  qed
qed

text \<open>A value with at most 53 significant bits is representable: rounding leaves it alone.\<close>

lemma nearest64_dyadic:
  assumes "0 < m" "m < 2 ^ 53" "j \<le> 1022"
  shows "nearest64 (of_nat m / 2 ^ j) = of_nat m / 2 ^ j"
proof -
  define x :: rat where "x = of_nat m / 2 ^ j"
  define e where "e = ilog2 x"
  have x: "0 < x" using assms(1) by (simp add: x_def)
  have m1: "(1::rat) \<le> of_nat m" using assms(1) by simp
  have m53: "(of_nat m :: rat) < 2 ^ 53"
    using assms(2) by (metis of_nat_less_iff of_nat_numeral of_nat_power)
  have p: "(2::rat) powi (- int j) = 1 / 2 ^ j" by (simp add: power_int_minus_divide)
  have "2 powi (- int j) \<le> x" unfolding p x_def using m1 by (simp add: divide_right_mono)
  then have "ilog2 (2 powi (- int j)) \<le> ilog2 x" by (intro ilog2_mono) (simp_all add: pow2_pos)
  moreover have "ilog2 (2 powi (- int j)) = - int j"
    by (rule ilog2_unique) (simp_all add: pow2_strict_mono)
  ultimately have elo: "- int j \<le> e" by (simp add: e_def)
  have "x < 2 ^ 53 / 2 ^ j" unfolding x_def using m53 by (simp add: divide_strict_right_mono)
  also have "\<dots> = 2 powi (53 - int j)" using pow2_add[of 53 "- int j"] by (simp add: p)
  finally have "2 powi e < (2::rat) powi (53 - int j)"
    using ilog2_bounds(1)[OF x] unfolding e_def by linarith
  then have ehi: "e \<le> 52 - int j" using pow2_less_cancel[of e "53 - int j"] by simp
  define k where "k = nat (52 - int j - e)"
  have "max e (- 1022) = e" using elo assms(3) by simp
  then have "ulp64 x = 2 powi (e - 52)" by (simp add: ulp64_def e_def[symmetric])
  also have "e - 52 = - int j + - int k" using ehi by (simp add: k_def)
  also have "(2::rat) powi (- int j + - int k) = 1 / 2 ^ j * (1 / 2 ^ k)"
    unfolding pow2_add by (simp add: power_int_minus_divide)
  finally have u: "ulp64 x = 1 / 2 ^ j * (1 / 2 ^ k)" .
  have "x / ulp64 x = of_int (int m * 2 ^ k)" unfolding u by (simp add: x_def)
  then have "round_half_even (x / ulp64 x) = int m * 2 ^ k" by (simp only: round_half_even_of_int)
  then have "nearest64 x = of_int (int m * 2 ^ k) * (1 / 2 ^ j * (1 / 2 ^ k))"
    by (simp only: nearest64_def u)
  then show ?thesis by (simp add: x_def)
qed

lemma fl64_dyadic:
  assumes "m < 2 ^ 53" "j \<le> 1022"
  shows "fl64 (of_nat m / 2 ^ j) = Fin (of_nat m / 2 ^ j)"
proof (cases "m = 0")
  case True
  then show ?thesis by (simp add: fl64_def)
next
  case False
  then have m: "0 < m" by simp
  have "(1::rat) \<le> 2 ^ j" by simp
  then have "(of_nat m :: rat) * 1 \<le> of_nat m * 2 ^ j" by (intro mult_left_mono) simp_all
  then have "(of_nat m :: rat) / 2 ^ j \<le> of_nat m" by (simp add: divide_le_eq)
  also have "(of_nat m :: rat) < 2 ^ 53"
    using assms(1) by (metis of_nat_less_iff of_nat_numeral of_nat_power)
  also have "(2::rat) ^ 53 < 2 powi 1024" by simp
  finally have "\<not> 2 powi 1024 \<le> (of_nat m :: rat) / 2 ^ j" by simp
  then show ?thesis
    using m by (simp add: fl64_def nearest64_dyadic[OF m assms])
qed

lemma fl64_of_nat:
  assumes "m < 2 ^ 53"
  shows "fl64 (of_nat m) = Fin (of_nat m)"
  using fl64_dyadic[OF assms, of 0] by simp

lemma nearest64_1: "nearest64 1 = 1"
  using nearest64_dyadic[of 1 0] by simp

lemma nearest64_100: "nearest64 100 = 100"
  using nearest64_dyadic[of 100 0] by simp

text \<open>The rounding of a value whose exponent is known.\<close>

lemma fl64_at:
  assumes "2 powi e \<le> x" "x < 2 powi (e + 1)" "- 1022 \<le> e" "e \<le> 1022"
  shows "fl64 x = Fin (of_int (round_half_even (x / 2 powi (e - 52))) * 2 powi (e - 52))"
proof -
  have x: "0 < x" using assms(1) pow2_pos[of e] by linarith
  have e: "ilog2 x = e" using assms(1,2) by (rule ilog2_unique)
  have u: "ulp64 x = 2 powi (e - 52)" using assms(3) by (simp add: ulp64_def e max_def)
  have "x / 2 powi (e - 52) \<le> 2 powi (e + 1) / 2 powi (e - 52)"
    using assms(2) by (simp add: divide_right_mono)
  also have "\<dots> = of_int (2 ^ 53)"
    using pow2_split[of "e + 1" 53] by (simp add: pow2_pos)
  finally have "round_half_even (x / 2 powi (e - 52)) \<le> round_half_even (of_int (2 ^ 53))"
    by (rule round_half_even_mono)
  then have "(of_int (round_half_even (x / 2 powi (e - 52))) :: rat) \<le> of_int (2 ^ 53)"
    unfolding round_half_even_of_int by (simp only: of_int_le_iff)
  then have "nearest64 x \<le> of_int (2 ^ 53) * 2 powi (e - 52)"
    unfolding nearest64_def u by (rule mult_right_mono) (simp add: pow2_pos less_imp_le)
  also have "\<dots> = 2 powi (e + 1)" using pow2_split[of "e + 1" 53] by simp
  also have "\<dots> < 2 powi 1024" using assms(4) by (intro pow2_strict_mono) simp
  finally have "\<not> 2 powi 1024 \<le> nearest64 x" by simp
  then show ?thesis using x by (simp add: fl64_def nearest64_def u)
qed

lemma round_half_even_eqI:
  assumes "of_int m - 1 / 2 < r" "r < of_int m + 1 / 2"
  shows "round_half_even r = m"
proof -
  have "\<bar>of_int (round_half_even r) - r\<bar> \<le> 1 / 2" by (rule round_half_even_near)
  then have "\<bar>(of_int (round_half_even r - m) :: rat)\<bar> < of_int 1"
    using assms by (simp add: abs_if split: if_splits)
  then have "\<bar>round_half_even r - m\<bar> < 1" by (simp only: of_int_abs[symmetric] of_int_less_iff)
  then show ?thesis by simp
qed

lemma fl64_nearest:
  assumes "2 powi e \<le> x" "x < 2 powi (e + 1)" "- 1022 \<le> e" "e \<le> 1022"
    and "(of_int m - 1 / 2) * 2 powi (e - 52) < x" "x < (of_int m + 1 / 2) * 2 powi (e - 52)"
  shows "fl64 x = Fin (of_int m * 2 powi (e - 52))"
proof -
  have "of_int m - 1 / 2 < x / 2 powi (e - 52)" "x / 2 powi (e - 52) < of_int m + 1 / 2"
    using assms(5,6) by (simp_all add: pos_less_divide_eq pos_divide_less_eq pow2_pos)
  then have "round_half_even (x / 2 powi (e - 52)) = m" by (rule round_half_even_eqI)
  then show ?thesis using fl64_at[OF assms(1-4)] by simp
qed

subsection \<open>The compliance score\<close>

lemma nearest64_nonneg: "0 \<le> x \<Longrightarrow> 0 \<le> nearest64 x"
proof -
  assume "0 \<le> x"
  then have "0 \<le> x / ulp64 x" by simp
  then have "round_half_even 0 \<le> round_half_even (x / ulp64 x)" by (rule round_half_even_mono)
  then have "0 \<le> round_half_even (x / ulp64 x)" using round_half_even_of_int[of 0] by simp
  then show ?thesis by (simp add: nearest64_def)
qed

text \<open>A positive value in the normal range that does not overflow.\<close>

lemma fl64_normal:
  assumes "2 powi (- 1022) \<le> x" "x \<le> b" "nearest64 b = b" "b < 2 powi 1024"
  shows "\<exists>y. fl64 x = Fin y \<and> 0 < y \<and> y \<le> b \<and> \<bar>y - x\<bar> \<le> x * 2 powi (- 53)"
proof -
  have x: "0 < x" using assms(1) pow2_pos[of "- 1022"] by linarith
  define y where "y = nearest64 x"
  have yb: "y \<le> b" using nearest64_mono[OF x assms(2)] assms(3) by (simp add: y_def)
  have "\<bar>y - x\<bar> \<le> ulp64 x / 2" unfolding y_def by (rule nearest64_near)
  also have "\<dots> \<le> x * 2 powi (- 52) / 2" using ulp64_normal[OF assms(1)] by simp
  also have "\<dots> = x * 2 powi (- 53)" by simp
  finally have near: "\<bar>y - x\<bar> \<le> x * 2 powi (- 53)" .
  have "x * 2 powi (- 53) < x" using x by simp
  then have ypos: "0 < y" using near by linarith
  have "fl64 x = Fin y"
    using x yb assms(4) by (simp add: fl64_def y_def[symmetric] Let_def)
  then show ?thesis using ypos yb near by blast
qed

lemma Math_round_bounds:
  assumes "0 \<le> y" "y \<le> of_int b"
  shows "0 \<le> \<lfloor>y + 1 / 2\<rfloor>" and "\<lfloor>y + 1 / 2 :: rat\<rfloor> \<le> b"
proof -
  show "0 \<le> \<lfloor>y + 1 / 2\<rfloor>" using assms(1) by simp
  have "y + 1 / 2 < of_int (b + 1)" using assms(2) by simp
  then have "\<lfloor>y + 1 / 2\<rfloor> < b + 1" by (simp only: floor_less_iff)
  then show "\<lfloor>y + 1 / 2\<rfloor> \<le> b" by simp
qed

text \<open>The score for \<open>c\<close> compliant checks out of \<open>t\<close>.\<close>

lemma score_nearest:
  fixes c t :: nat
  assumes "0 < c" "c \<le> t" "t < 2 ^ 32"
  shows "\<exists>n. Math_round (js_mul_num (js_div_num (Fin (of_nat c)) (Fin (of_nat t))) (Fin 100))
           = Fin (of_int n)
         \<and> 0 \<le> n \<and> n \<le> 100 \<and> \<bar>of_int n - 100 * of_nat c / (of_nat t :: rat)\<bar> \<le> 1 / 2"
proof -
  define x1 :: rat where "x1 = of_nat c / of_nat t"
  define d :: rat where "d = 2 powi (- 53)"
  have d: "0 < d" "d \<le> 1 / 2" "200 * d * (2 * 2 ^ 32) < 1"
    by (simp_all add: d_def power_int_minus_divide)
  have t: "0 < t" using assms by simp
  have tpos: "0 < (of_nat t :: rat)" using t by simp
  have tr: "(of_nat t :: rat) < 2 ^ 32"
    using assms(3) by (metis of_nat_less_iff of_nat_numeral of_nat_power)
  have x1_le: "x1 \<le> 1" using assms t by (simp add: x1_def)
  have "1 / 2 ^ 32 < 1 / (of_nat t :: rat)" using tpos tr by (simp add: frac_less2)
  also have "\<dots> \<le> x1" using assms t by (simp add: x1_def divide_right_mono)
  finally have x1_ge: "1 / 2 ^ 32 < x1" .
  have x1_pos: "0 < x1" using assms t by (simp add: x1_def)
  have "2 powi (- 1022) \<le> (1 / 2 ^ 32 :: rat)" by (simp add: power_int_minus_divide)
  then have "2 powi (- 1022) \<le> x1" using x1_ge by linarith
  from fl64_normal[OF this x1_le nearest64_1, folded d_def] obtain y1
    where y1: "fl64 x1 = Fin y1" "0 < y1" "y1 \<le> 1" "\<bar>y1 - x1\<bar> \<le> x1 * d"
    by auto
  have "x1 * d \<le> x1 * (1 / 2)" using d(2) x1_pos by (intro mult_left_mono) simp_all
  then have "x1 / 2 \<le> y1" using y1(4) by (simp add: abs_le_iff)
  then have y1_ge: "1 / 2 ^ 33 \<le> y1" using x1_ge by simp
  have "2 powi (- 1022) \<le> (1 / 2 ^ 33 * 100 :: rat)" by (simp add: power_int_minus_divide)
  moreover have "1 / 2 ^ 33 * 100 \<le> y1 * 100" using y1_ge by (intro mult_right_mono) simp_all
  ultimately have n2: "2 powi (- 1022) \<le> y1 * 100" by (rule order_trans)
  have le2: "y1 * 100 \<le> 100" using y1(3) by simp
  from fl64_normal[OF n2 le2 nearest64_100, folded d_def] obtain y2
    where y2: "fl64 (y1 * 100) = Fin y2" "0 < y2" "y2 \<le> 100" "\<bar>y2 - y1 * 100\<bar> \<le> y1 * 100 * d"
    by auto
  define n where "n = \<lfloor>y2 + 1 / 2\<rfloor>"
  have score: "Math_round (js_mul_num (js_div_num (Fin (of_nat c)) (Fin (of_nat t))) (Fin 100))
                 = Fin (of_int n)"
    using t y1(1) y2(1) by (simp add: x1_def[symmetric] n_def)
  have nb: "0 \<le> n" "n \<le> 100"
    using Math_round_bounds[of y2 100] y2(2,3) by (simp_all add: n_def)
  define q :: rat where "q = 100 * of_nat c / of_nat t"
  define eps :: rat where "eps = 200 * d"
  have q: "q = 100 * x1" by (simp add: q_def x1_def)
  have "\<bar>y2 - q\<bar> = \<bar>(y2 - y1 * 100) + 100 * (y1 - x1)\<bar>" by (simp add: q)
  also have "\<dots> \<le> \<bar>y2 - y1 * 100\<bar> + \<bar>100 * (y1 - x1)\<bar>"
    by (rule abs_triangle_ineq)
  also have "\<dots> = \<bar>y2 - y1 * 100\<bar> + 100 * \<bar>y1 - x1\<bar>"
    by (simp only: abs_mult abs_numeral)
  also have "\<dots> \<le> y1 * 100 * d + 100 * (x1 * d)"
    using y2(4) y1(4) by (intro add_mono mult_left_mono) simp_all
  also have "\<dots> \<le> 1 * 100 * d + 100 * (1 * d)"
    using y1(3) x1_le d(1) by (intro add_mono mult_left_mono mult_right_mono) simp_all
  also have "\<dots> = eps" by (simp add: eps_def)
  finally have y2q: "\<bar>y2 - q\<bar> \<le> eps" .
  have n_hi: "of_int n \<le> y2 + 1 / 2" unfolding n_def by (rule of_int_floor_le)
  have n_lo: "y2 + 1 / 2 < of_int n + 1" unfolding n_def by linarith
  have y2q': "y2 - q \<le> eps" "- eps \<le> y2 - q" using y2q by (simp_all add: abs_le_iff)
  have up: "of_int n - q \<le> 1 / 2 + eps" using y2q'(1) n_hi by simp
  have down: "- (1 / 2) - eps < of_int n - q" using y2q'(2) n_lo by simp
  define N :: int where "N = 2 * n * int t - 200 * int c"
  have Nq: "of_int n - q = of_int N / (2 * of_nat t)"
    using t by (simp add: N_def q_def field_simps)
  have eps_small: "eps * (2 * of_nat t) < 1"
  proof -
    have "eps * (2 * of_nat t) \<le> eps * (2 * 2 ^ 32)"
      using tr d(1) by (intro mult_left_mono) (simp_all add: eps_def)
    also have "\<dots> < 1" using d(3) by (simp add: eps_def)
    finally show ?thesis .
  qed
  have "of_int N \<le> (1 / 2 + eps) * (2 * of_nat t :: rat)"
    using up tpos by (simp add: Nq pos_divide_le_eq)
  also have "\<dots> = of_nat t + eps * (2 * of_nat t)" by (simp add: algebra_simps)
  also have "\<dots> < of_nat t + 1" using eps_small by simp
  finally have "(of_int N :: rat) < of_int (int t + 1)" by simp
  then have "N < int t + 1" by (simp only: of_int_less_iff)
  then have N_hi: "N \<le> int t" by simp
  have "(- (1 / 2) - eps) * (2 * of_nat t :: rat) < of_int N"
    using down tpos by (simp add: Nq pos_less_divide_eq)
  moreover have "(- (1 / 2) - eps) * (2 * of_nat t :: rat) = - of_nat t - eps * (2 * of_nat t)"
    by (simp add: algebra_simps)
  moreover have "- of_nat t - 1 < - of_nat t - eps * (2 * of_nat t :: rat)"
    using eps_small by simp
  ultimately have "- of_nat t - 1 < (of_int N :: rat)" by simp
  then have "(of_int (- int t - 1) :: rat) < of_int N" by simp
  then have "- int t - 1 < N" by (simp only: of_int_less_iff)
  then have N_lo: "- int t \<le> N" by simp
  have "\<bar>N\<bar> \<le> int t" using N_hi N_lo by simp
  then have "(of_int \<bar>N\<bar> :: rat) \<le> of_int (int t)" by (simp only: of_int_le_iff)
  then have "\<bar>of_int N :: rat\<bar> \<le> of_nat t" by simp
  then have "\<bar>of_int n - q\<bar> \<le> 1 / 2"
    using tpos by (simp add: Nq abs_mult pos_divide_le_eq)
  then show ?thesis using score nb by (auto simp: q_def)
qed

lemma status_partition:
  "\<forall>ch \<in> set checks. check_status ch = ''compliant'' \<or> check_status ch = ''violation'' \<Longrightarrow>
   length (filter (\<lambda>c. check_status c = ''compliant'') checks)
     + length (filter (\<lambda>c. check_status c = ''violation'') checks) = length checks"
  by (induction checks) auto

lemma score_zero:
  "t \<noteq> 0 \<Longrightarrow>
   Math_round (js_mul_num (js_div_num (Fin 0) (Fin (of_nat t))) (Fin 100)) = Fin (of_int 0)"
proof -
  have "\<lfloor>1 / 2 :: rat\<rfloor> = 0" by linarith
  then show ?thesis if "t \<noteq> 0" using that by (simp add: fl64_def)
qed

text \<open>
  Claim C2, as amended. For a non-empty list of fewer than \<open>2^32\<close> checks (the bound
  on an array's length), each marked \<open>compliant\<close> or \<open>violation\<close>, the overall score
  is an integer from 0 to 100 at distance at most 1/2 from 100 \<times> the number of the
  list's checks marked \<open>compliant\<close> / the number of its checks; it is 100 when no check
  of the list is marked \<open>violation\<close> and 0 when none is marked \<open>compliant\<close>.
\<close>

theorem compliance_score_nearest:
  assumes "checks \<noteq> []" and "length checks < 2 ^ 32"
    and "\<forall>ch \<in> set checks. check_status ch = ''compliant'' \<or> check_status ch = ''violation''"
  shows "\<exists>n. overallScore (processComplianceChecks checks) = Fin (of_int n)
         \<and> 0 \<le> n \<and> n \<le> 100
         \<and> \<bar>of_int n - 100 * of_nat (length (filter (\<lambda>c. check_status c = ''compliant'') checks))
                / (of_nat (length checks) :: rat)\<bar> \<le> 1 / 2
         \<and> (filter (\<lambda>c. check_status c = ''violation'') checks = [] \<longrightarrow> n = 100)
         \<and> (filter (\<lambda>c. check_status c = ''compliant'') checks = [] \<longrightarrow> n = 0)"
proof -
  define c where "c = length (filter (\<lambda>c. check_status c = ''compliant'') checks)"
  define v where "v = length (filter (\<lambda>c. check_status c = ''violation'') checks)"
  define t where "t = length checks"
  have part: "c + v = t" unfolding c_def v_def t_def by (rule status_partition[OF assms(3)])
  have t: "0 < t" "t < 2 ^ 32" using assms(1,2) by (simp_all add: t_def)
  have score: "overallScore (processComplianceChecks checks)
      = Math_round (js_mul_num (js_div_num (Fin (of_nat c)) (Fin (of_nat t))) (Fin 100))"
    by (simp add: processComplianceChecks_def length_num_def c_def t_def Let_def)
  have v0: "v = 0" if "filter (\<lambda>c. check_status c = ''violation'') checks = []"
    using that by (simp add: v_def)
  have c0: "c = 0" if "filter (\<lambda>c. check_status c = ''compliant'') checks = []"
    using that by (simp add: c_def)
  show ?thesis
  proof (cases "c = 0")
    case True
    then have "v \<noteq> 0" using part t by simp
    then have "filter (\<lambda>c. check_status c = ''violation'') checks \<noteq> []" using v0 by blast
    moreover have "overallScore (processComplianceChecks checks) = Fin (of_int 0)"
      using score_zero[of t] t True by (simp add: score)
    ultimately show ?thesis
      using True by (intro exI[of _ 0]) (simp add: c_def[symmetric])
  next
    case False
    then have c: "0 < c" "c \<le> t" using part by simp_all
    from score_nearest[OF c t(2)] obtain n
      where n: "Math_round (js_mul_num (js_div_num (Fin (of_nat c)) (Fin (of_nat t))) (Fin 100))
                 = Fin (of_int n)"
        "0 \<le> n" "n \<le> 100" "\<bar>of_int n - 100 * of_nat c / (of_nat t :: rat)\<bar> \<le> 1 / 2"
      by blast
    have all: "n = 100" if "filter (\<lambda>c. check_status c = ''violation'') checks = []"
    proof -
      from v0[OF that] have "c = t" using part by simp
      then have "\<bar>(of_int n :: rat) - 100\<bar> \<le> 1 / 2" using n(4) t(1) by simp
      then have "\<bar>(of_int (n - 100) :: rat)\<bar> < of_int 1" by simp
      then have "\<bar>n - 100\<bar> < 1" by (simp only: of_int_abs[symmetric] of_int_less_iff)
      then show ?thesis by simp
    qed
    have none: "filter (\<lambda>c. check_status c = ''compliant'') checks \<noteq> []"
      using c0 False by blast
    show ?thesis
      using n all none
      by (intro exI[of _ n]) (simp add: score c_def[symmetric] t_def[symmetric])
  qed
qed

text \<open>The lists the function returns are the checks of each status, in order.\<close>

lemma processComplianceChecks_fields:
  "violations (processComplianceChecks checks)
     = filter (\<lambda>c. check_status c = ''violation'') checks"
  "compliantChecks (processComplianceChecks checks)
     = filter (\<lambda>c. check_status c = ''compliant'') checks"
  "totalChecks (processComplianceChecks checks) = length checks"
  by (simp_all add: processComplianceChecks_def Let_def)

lemma filter_checks_of:
  "filter (\<lambda>c. check_status c = ''violation'') (checks_of c v)
     = replicate v (mk_check ''violation'')"
  "filter (\<lambda>c. check_status c = ''compliant'') (checks_of c v)
     = replicate c (mk_check ''compliant'')"
  by (simp_all add: checks_of_def mk_check_def)

lemma processComplianceChecks_checks_of:
  "overallScore (processComplianceChecks (checks_of c v))
     = Math_round (js_mul_num (js_div_num (Fin (of_nat c)) (Fin (of_nat (c + v)))) (Fin 100))"
  "length (violations (processComplianceChecks (checks_of c v))) = v"
  "length (compliantChecks (processComplianceChecks (checks_of c v))) = c"
  by (simp_all add: processComplianceChecks_def checks_of_def mk_check_def length_num_def Let_def)

lemma score_23_of_40:
  "Math_round (js_mul_num (js_div_num (Fin 23) (Fin 40)) (Fin 100)) = Fin 57"
proof -
  have a: "js_div_num (Fin 23) (Fin 40) = Fin (2589569785738035 / 4503599627370496)"
    using fl64_nearest[of "- 1" "23 / 40" 5179139571476070]
    by (simp add: power_int_minus_divide)
  have b: "js_mul_num (Fin (2589569785738035 / 4503599627370496)) (Fin 100)
             = Fin (8092405580431359 / 140737488355328)"
    using fl64_nearest[of 5 "2589569785738035 / 4503599627370496 * 100" 8092405580431359]
    by (simp add: power_int_minus_divide)
  have "\<lfloor>8092405580431359 / 140737488355328 + 1 / 2 :: rat\<rfloor> = 57" by linarith
  then have c: "Math_round (Fin (8092405580431359 / 140737488355328)) = Fin 57" by simp
  show ?thesis by (simp only: a b c)
qed

lemma score_200_of_201:
  "Math_round (js_mul_num (js_div_num (Fin 200) (Fin 201)) (Fin 100)) = Fin 100"
proof -
  have a: "js_div_num (Fin 200) (Fin 201) = Fin (8962387318150241 / 9007199254740992)"
    using fl64_nearest[of "- 1" "200 / 201" 8962387318150241]
    by (simp add: power_int_minus_divide)
  have b: "js_mul_num (Fin (8962387318150241 / 9007199254740992)) (Fin 100)
             = Fin (1750466273076219 / 17592186044416)"
    using fl64_nearest[of 6 "8962387318150241 / 9007199254740992 * 100" 7001865092304876]
    by (simp add: power_int_minus_divide)
  have "\<lfloor>1750466273076219 / 17592186044416 + 1 / 2 :: rat\<rfloor> = 100" by linarith
  then have c: "Math_round (Fin (1750466273076219 / 17592186044416)) = Fin 100" by simp
  show ?thesis by (simp only: a b c)
qed

lemma score_1_of_201:
  "Math_round (js_mul_num (js_div_num (Fin 1) (Fin 201)) (Fin 100)) = Fin 0"
proof -
  have a: "js_div_num (Fin 1) (Fin 201) = Fin (2867963941808077 / 576460752303423488)"
    using fl64_nearest[of "- 8" "1 / 201" 5735927883616154]
    by (simp add: power_int_minus_divide)
  have b: "js_mul_num (Fin (2867963941808077 / 576460752303423488)) (Fin 100)
             = Fin (8962387318150241 / 18014398509481984)"
    using fl64_nearest[of "- 2" "2867963941808077 / 576460752303423488 * 100" 8962387318150241]
    by (simp add: power_int_minus_divide)
  have "\<lfloor>8962387318150241 / 18014398509481984 + 1 / 2 :: rat\<rfloor> = 0" by linarith
  then have c: "Math_round (Fin (8962387318150241 / 18014398509481984)) = Fin 0" by simp
  show ?thesis by (simp only: a b c)
qed

theorem compliance_score_nearest_witness:
  "checks_of 23 17 \<noteq> [] \<and> length (checks_of 23 17) = 40
   \<and> length (filter (\<lambda>c. check_status c = ''compliant'') (checks_of 23 17)) = 23
   \<and> overallScore (processComplianceChecks (checks_of 23 17)) = Fin 57
   \<and> (\<exists>n. Fin 57 = Fin (of_int n) \<and> \<bar>of_int n - 100 * 23 / (40 :: rat)\<bar> \<le> 1 / 2)
   \<and> filter (\<lambda>c. check_status c = ''violation'') (checks_of 3 0) = []
   \<and> overallScore (processComplianceChecks (checks_of 3 0)) = Fin 100
   \<and> filter (\<lambda>c. check_status c = ''compliant'') (checks_of 0 2) = []
   \<and> overallScore (processComplianceChecks (checks_of 0 2)) = Fin 0"
proof -
  have ne: "checks_of c v \<noteq> []" if "0 < c + v" for c v
    using that by (auto simp: checks_of_def)
  have len: "length (checks_of c v) = c + v" for c v by (simp add: checks_of_def)
  have st: "\<forall>ch \<in> set (checks_of c v).
              check_status ch = ''compliant'' \<or> check_status ch = ''violation''" for c v
    by (auto simp: checks_of_def mk_check_def)
  have s: "overallScore (processComplianceChecks (checks_of 23 17)) = Fin 57"
    using score_23_of_40 by (simp add: processComplianceChecks_checks_of)
  from compliance_score_nearest[OF ne _ st, of 23 17]
  have a: "\<exists>n. Fin 57 = Fin (of_int n) \<and> \<bar>of_int n - 100 * 23 / (40 :: rat)\<bar> \<le> 1 / 2"
    by (simp add: len s filter_checks_of)
  from compliance_score_nearest[OF ne _ st, of 3 0]
  have b: "overallScore (processComplianceChecks (checks_of 3 0)) = Fin 100"
    by (auto simp: len filter_checks_of)
  from compliance_score_nearest[OF ne _ st, of 0 2]
  have c: "overallScore (processComplianceChecks (checks_of 0 2)) = Fin 0"
    by (auto simp: len filter_checks_of)
  show ?thesis using a b c s ne[of 23 17] len[of 23 17] by (simp add: filter_checks_of)
qed

text \<open>
  Claim C2 as stated fails: the score of no checks at all is NaN; 200 compliant checks and
  1 violation score 100; 1 compliant check and 200 violations score 0; and 23 compliant
  checks out of 40 score 57, the double product \<open>(23 / 40) * 100\<close> being just below 57.5,
  where rounding \<open>100 \<times> 23 / 40\<close> half up gives 58.
\<close>

theorem compliance_score_counterexample:
  "overallScore (processComplianceChecks []) = NaN
   \<and> overallScore (processComplianceChecks (checks_of 200 1)) = Fin 100
   \<and> length (filter (\<lambda>c. check_status c = ''violation'') (checks_of 200 1)) = 1
   \<and> overallScore (processComplianceChecks (checks_of 1 200)) = Fin 0
   \<and> length (filter (\<lambda>c. check_status c = ''compliant'') (checks_of 1 200)) = 1
   \<and> overallScore (processComplianceChecks (checks_of 23 17)) = Fin 57
   \<and> length (filter (\<lambda>c. check_status c = ''compliant'') (checks_of 23 17)) = 23
   \<and> length (checks_of 23 17) = 40
   \<and> \<lfloor>100 * 23 / 40 + 1 / 2 :: rat\<rfloor> = 58"
proof -
  have "overallScore (processComplianceChecks []) = NaN"
    by (simp add: processComplianceChecks_def length_num_def)
  moreover have "\<lfloor>100 * 23 / 40 + 1 / 2 :: rat\<rfloor> = 58" by linarith
  moreover have "length (checks_of 23 17) = 40" by (simp add: checks_of_def)
  ultimately show ?thesis
    using score_23_of_40 score_200_of_201 score_1_of_201
    by (simp add: processComplianceChecks_checks_of filter_checks_of)
qed

subsection \<open>Aggregation\<close>

lemma map_of_replace_same:
  "k \<in> fst ` set g \<Longrightarrow>
   map_of (map (\<lambda>(a, b). if a = k then (a, v) else (a, b)) g) k = Some v"
proof (induction g)
  case Nil
  then show ?case by simp
next
  case (Cons p g)
  then show ?case by (cases p) auto
qed

lemma map_of_replace_other:
  "k' \<noteq> k \<Longrightarrow>
   map_of (map (\<lambda>(a, b). if a = k then (a, v) else (a, b)) g) k' = map_of g k'"
proof (induction g)
  case Nil
  then show ?case by simp
next
  case (Cons p g)
  then show ?case by (cases p) auto
qed

lemma item_get_js_set:
  "item_get (js_set g k v) k' = (if k' = k then v else item_get g k')"
proof (cases "k \<in> fst ` set g")
  case True
  then show ?thesis
    by (simp add: item_get_def js_get_def js_set_def map_of_replace_same map_of_replace_other)
next
  case False
  then have "map_of g k = None" by (simp add: map_of_eq_None_iff)
  then show ?thesis using False
    by (auto simp: item_get_def js_get_def js_set_def map_add_def split: option.splits)
qed

lemma init_fields_zero:
  "f \<in> set fs \<or> item_get g (fname f) = JNum (Fin 0) \<Longrightarrow>
   item_get (foldl (\<lambda>g field. js_set g (fname field) (JNum (Fin 0))) g fs) (fname f)
     = JNum (Fin 0)"
  by (induction fs arbitrary: g) (auto simp: item_get_js_set)

lemma apply_operation_other:
  "fname f' \<noteq> n \<Longrightarrow> item_get (apply_operation rt it g f') n = item_get g n"
  by (simp add: apply_operation_def item_get_js_set)

lemma apply_operations_other:
  "\<forall>f' \<in> set fs. fname f' \<noteq> n \<Longrightarrow>
   item_get (foldl (apply_operation rt it) g fs) n = item_get g n"
  by (induction fs arbitrary: g) (simp_all add: apply_operation_other)

lemma apply_operations_count:
  "distinct (map fname fs) \<Longrightarrow> f \<in> set fs \<Longrightarrow> operation f = ''count'' \<Longrightarrow>
   item_get (foldl (apply_operation rt it) g fs) (fname f)
     = JNum (js_add_num (to_number rt (item_get g (fname f))) (Fin 1))"
proof (induction fs arbitrary: g)
  case Nil
  then show ?case by simp
next
  case (Cons f' fs)
  show ?case
  proof (cases "f' = f")
    case True
    have "fname f \<notin> fname ` set fs" using Cons.prems(1) True by simp
    then have "\<forall>h \<in> set fs. fname h \<noteq> fname f" by (metis imageI)
    then have "item_get (foldl (apply_operation rt it) (apply_operation rt it g f) fs) (fname f)
                 = item_get (apply_operation rt it g f) (fname f)"
      by (rule apply_operations_other)
    moreover have "item_get (apply_operation rt it g f) (fname f)
                 = JNum (js_add_num (to_number rt (item_get g (fname f))) (Fin 1))"
      using Cons.prems(3) by (simp add: apply_operation_def item_get_js_set)
    ultimately show ?thesis using True by simp
  next
    case False
    then have f: "f \<in> set fs" using Cons.prems(2) by simp
    then have "fname f' \<noteq> fname f" using Cons.prems(1) by auto
    then show ?thesis
      using Cons.IH[OF _ f Cons.prems(3)] Cons.prems(1) by (simp add: apply_operation_other)
  qed
qed

lemma sum_replace:
  "distinct (map fst G) \<Longrightarrow> map_of G k = Some g \<Longrightarrow>
   sum_list (map h (map snd (map (\<lambda>(a, b). if a = k then (a, g') else (a, b)) G)))
     = sum_list (map h (map snd G)) - h g + (h g' :: rat)"
proof (induction G)
  case Nil
  then show ?case by simp
next
  case (Cons p G)
  obtain a b where p: "p = (a, b)" by (cases p)
  show ?case
  proof (cases "a = k")
    case True
    then have "k \<notin> fst ` set G" using Cons.prems(1) p by auto
    then have "map (\<lambda>(a, b). if a = k then (a, g') else (a, b)) G = G"
      by (induction G) auto
    then show ?thesis using True Cons.prems(2) p by simp
  next
    case False
    then show ?thesis using Cons p by simp
  qed
qed

lemma counted_step:
  assumes inv: "counted (fname f) G m" and m: "m + 1 < 2 ^ 53"
    and fs: "distinct (map fname fs)" "f \<in> set fs" "operation f = ''count''"
    and key: "to_string rt (item_get it groupBy) \<notin> set object_prototype_keys"
  shows "counted (fname f) (aggregate_item rt groupBy fs G it) (m + 1)"
proof -
  define n where "n = fname f"
  define k where "k = to_string rt (item_get it groupBy)"
  note inv' = inv[unfolded counted_def, folded n_def]
  have ex: "fl64 (of_nat c + 1) = Fin (of_nat (c + 1))" if "c \<le> m" for c
    using fl64_of_nat[of "c + 1"] that m by (simp add: add.commute)
  show ?thesis
  proof (cases "map_of G k")
    case None
    define g0 where "g0 = foldl (\<lambda>g field. js_set g (fname field) (JNum (Fin 0)))
                            [(groupBy, item_get it groupBy)] fs"
    define g1 where "g1 = foldl (apply_operation rt it) g0 fs"
    have "item_get g0 n = JNum (Fin 0)"
      unfolding g0_def n_def using fs(2) by (intro init_fields_zero) simp
    then have g1: "item_get g1 n = JNum (Fin (of_nat 1))"
      unfolding g1_def n_def using apply_operations_count[OF fs, of rt it g0] ex[of 0]
      by (simp add: n_def)
    have notin: "k \<notin> fst ` set G" using None by (simp add: map_of_eq_None_iff)
    have step: "aggregate_item rt groupBy fs G it = G @ [(k, g1)]"
      using None key notin
      by (simp add: aggregate_item_def plain_object_get_def js_get_def
          Let_def js_set_def g0_def g1_def flip: k_def)
    note notin
    moreover have "\<exists>c :: nat. c \<le> m + 1 \<and> item_get g1 n = JNum (Fin (of_nat c))"
      using g1 by (intro exI[of _ 1]) simp
    moreover have "field_value n g1 = 1" using g1 by (simp add: field_value_def)
    ultimately show ?thesis
      using inv' unfolding counted_def n_def[symmetric] step
      by (auto intro: le_SucI)
  next
    case (Some g)
    then have gin: "g \<in> snd ` set G" by (force dest: map_of_SomeD)
    then obtain c :: nat where c: "c \<le> m" "item_get g n = JNum (Fin (of_nat c))"
      using inv' by blast
    define g1 where "g1 = foldl (apply_operation rt it) g fs"
    have g1: "item_get g1 n = JNum (Fin (of_nat (c + 1)))"
      unfolding g1_def n_def using apply_operations_count[OF fs, of rt it g] ex[OF c(1)] c(2)
      by (simp add: n_def)
    have kin: "k \<in> fst ` set G" using Some by (force dest: map_of_SomeD)
    have step: "aggregate_item rt groupBy fs G it
                  = map (\<lambda>(a, b). if a = k then (a, g1) else (a, b)) G"
      using Some kin
      by (simp add: aggregate_item_def plain_object_get_def js_get_def
          Let_def js_set_def g1_def case_prod_beta flip: k_def)
    have keys: "map fst (map (\<lambda>(a, b). if a = k then (a, g1) else (a, b)) G) = map fst G"
      by (induction G) auto
    have vals: "snd ` set (map (\<lambda>(a, b). if a = k then (a, g1) else (a, b)) G)
                  \<subseteq> insert g1 (snd ` set G)"
      by (force split: if_splits)
    have "field_value n g = of_nat c" "field_value n g1 = of_nat c + 1"
      using c(2) g1 by (simp_all add: field_value_def)
    then have total: "sum_list (map (field_value n)
                        (map snd (map (\<lambda>(a, b). if a = k then (a, g1) else (a, b)) G)))
                      = of_nat m + 1"
      using sum_replace[of G k g "field_value n" g1] inv' Some by simp
    have each: "\<exists>c :: nat. c \<le> m + 1 \<and> item_get h n = JNum (Fin (of_nat c))"
      if "h \<in> insert g1 (snd ` set G)" for h
    proof (cases "h = g1")
      case True
      then show ?thesis using g1 c(1) by (intro exI[of _ "c + 1"]) simp
    next
      case False
      then have "h \<in> snd ` set G" using that by simp
      then obtain c' :: nat where "c' \<le> m" "item_get h n = JNum (Fin (of_nat c'))"
        using inv' by blast
      then show ?thesis by (intro exI[of _ c']) simp
    qed
    show ?thesis
      unfolding counted_def n_def[symmetric] step
      using inv' keys total each vals by (auto simp del: map_map)
  qed
qed

lemma counted_fold:
  assumes fs: "distinct (map fname fs)" "f \<in> set fs" "operation f = ''count''"
  shows "counted (fname f) G m \<Longrightarrow> m + length data < 2 ^ 53 \<Longrightarrow>
     \<forall>it \<in> set data. to_string rt (item_get it groupBy) \<notin> set object_prototype_keys \<Longrightarrow>
     counted (fname f) (foldl (aggregate_item rt groupBy fs) G data) (m + length data)"
proof (induction data arbitrary: G m)
  case Nil
  then show ?case by simp
next
  case (Cons it data)
  have "counted (fname f) (aggregate_item rt groupBy fs G it) (m + 1)"
    using Cons.prems by (intro counted_step fs) simp_all
  from Cons.IH[OF this] Cons.prems(2,3) show ?case by simp
qed

lemma sum_list_insort_key:
  "sum_list (map h (insort_key k x xs)) = (h x :: rat) + sum_list (map h xs)"
  by (induction xs) simp_all

lemma sum_list_sort_key:
  "sum_list (map h (sort_key k xs)) = (sum_list (map h xs) :: rat)"
  by (induction xs) (simp_all add: sum_list_insort_key)

lemma sum_list_partition:
  "sum_list (map h (filter P xs)) + sum_list (map h (filter (\<lambda>x. \<not> P x) xs))
     = (sum_list (map h xs) :: rat)"
  by (induction xs) simp_all

lemma sum_own_entries:
  "sum_list (map h (own_entries G)) = (sum_list (map h G) :: rat)"
proof -
  have "(\<lambda>(k, v). array_index k = None) = (\<lambda>p :: string \<times> 'a. \<not> (case p of (k, v) \<Rightarrow> array_index k \<noteq> None))"
    by auto
  then show ?thesis
    unfolding own_entries_def
    using sum_list_partition[of h "\<lambda>(k, v). array_index k \<noteq> None" G]
    by (simp add: sum_list_sort_key)
qed

lemma count_total_of_plain_keys:
  assumes "distinct (map fname fs)" "f \<in> set fs" "operation f = ''count''"
    and "length data < 2 ^ 32"
    and "\<forall>it \<in> set data. to_string rt (item_get it groupBy) \<notin> set object_prototype_keys"
  shows "field_total (fname f) (aggregateData rt data groupBy fs) = of_nat (length data)"
proof -
  define G where "G = foldl (aggregate_item rt groupBy fs) [] data"
  have "0 + length data < (2::nat) ^ 53"
    using assms(4) by (simp add: order_less_le_trans[of _ "2 ^ 32"])
  moreover have "counted (fname f) [] 0" by (simp add: counted_def)
  ultimately have "counted (fname f) G (0 + length data)"
    unfolding G_def using assms(5) by (intro counted_fold assms(1-3))
  then have "sum_list (map (field_value (fname f)) (map snd G)) = of_nat (length data)"
    by (simp add: counted_def)
  moreover have "field_total (fname f) (aggregateData rt data groupBy fs)
                   = sum_list (map (field_value (fname f) \<circ> snd) (own_entries G))"
    by (simp add: field_total_def aggregateData_def object_values_def G_def)
  ultimately show ?thesis by (simp add: sum_own_entries)
qed

lemma fl64_exact_values:
  "fl64 1 = Fin 1" "fl64 2 = Fin 2" "fl64 5 = Fin 5" "fl64 (5 / 2) = Fin (5 / 2)"
  "fl64 (17 / 2) = Fin (17 / 2)" "fl64 (17 / 4) = Fin (17 / 4)"
  "fl64 50 = Fin 50" "fl64 100 = Fin 100" "fl64 200 = Fin 200"
  using fl64_dyadic[of 1 0] fl64_dyadic[of 2 0] fl64_dyadic[of 5 0] fl64_dyadic[of 5 1]
    fl64_dyadic[of 17 1] fl64_dyadic[of 17 2] fl64_dyadic[of 50 0] fl64_dyadic[of 100 0]
    fl64_dyadic[of 200 0]
  by simp_all

lemmas aggregate_eval =
  aggregateData_def aggregate_item_def plain_object_get_def object_prototype_keys_def
  js_get_def js_set_def item_get_def apply_operation_def object_values_def own_entries_def
  array_index_def is_digit_def js_plus_def Let_def fl64_exact_values

text \<open>
  Claim C1. The \<open>avg\<close> operation on a group with the amounts 2, 4 and 6: the code
  halves the sum of the stored value and the next amount at each record, starting from 0,
  and produces 17/4, whereas the arithmetic mean is 4.
\<close>

theorem avg_is_not_the_mean:
  "aggregateData decimal_runtime deposits ''branch'' avg_amount
     = [[(''branch'', JStr ''Thika''), (''mean'', JNum (Fin (17 / 4)))]]
   \<and> map (\<lambda>it. item_get it ''amount'') deposits = [JNum (Fin 2), JNum (Fin 4), JNum (Fin 6)]
   \<and> ((2 + 4 + 6) / 3 :: rat) = 4
   \<and> aggregateData decimal_runtime sample_data ''name'' avg_value
     = [[(''name'', JStr ''Sample Data 1''), (''mean'', JNum (Fin 50))],
        [(''name'', JStr ''Sample Data 2''), (''mean'', JNum (Fin 100))]]"
  by (simp add: aggregate_eval deposits_def avg_amount_def sample_data_def avg_value_def)

text \<open>
  Claim C5. The \<open>count\<close> operation on three records, one of which has the group key
  \<open>constructor\<close>: that record creates no group, and the counts of the result add up to
  2, not 3.
\<close>

theorem count_loses_prototype_keys:
  "aggregateData decimal_runtime members ''occupation'' count_rows
     = [[(''occupation'', JStr ''teacher''), (''n'', JNum (Fin 2))]]
   \<and> field_total ''n'' (aggregateData decimal_runtime members ''occupation'' count_rows) = 2
   \<and> length members = 3"
  by (simp add: aggregate_eval members_def count_rows_def field_total_def field_value_def)

end
